theory Spec2Isabelle
  imports Complex_Main "HOL-Library.Word" "HOL-Library.AList" "HOL-Library.Log_Nat"
begin

section \<open>The Redis store seen by the Lua scripts\<close>

text \<open>
  A key holds a string value and possibly an expiry. \<open>expire_in\<close> is what the \<open>TTL\<close>
  command reports for the key: the remaining lifetime in whole seconds (Redis rounds the
  remaining milliseconds to the nearest second, so a key with less than half a second
  left reports 0), or \<open>None\<close> when the key has no expiry. Keys of other Redis types
  (lists, hashes) are outside the model.
\<close>

record entry =
  content :: string
  expire_in :: "nat option"

type_synonym redis = "string \<rightharpoonup> entry"

definition GET :: "redis \<Rightarrow> string \<Rightarrow> string option" where
  "GET db key = map_option content (db key)"

definition DEL :: "redis \<Rightarrow> string \<Rightarrow> redis" where
  "DEL db key = db(key := None)"

definition TTL :: "redis \<Rightarrow> string \<Rightarrow> int" where
  "TTL db key =
     (case db key of
        None \<Rightarrow> - 2
      | Some e \<Rightarrow> (case expire_in e of None \<Rightarrow> - 1 | Some n \<Rightarrow> int n))"

definition SET :: "redis \<Rightarrow> string \<Rightarrow> string \<Rightarrow> redis" where
  "SET db key v = db(key \<mapsto> \<lparr>content = v, expire_in = None\<rparr>)"

definition SET_EX :: "redis \<Rightarrow> string \<Rightarrow> string \<Rightarrow> int \<Rightarrow> string + redis" where
  "SET_EX db key v seconds =
     (if seconds \<le> 0 then Inl ''ERR invalid expire time in set''
      else Inr (db(key \<mapsto> \<lparr>content = v, expire_in = Some (nat seconds)\<rparr>)))"



subsection \<open>Decimal integers, as \<open>INCR\<close> reads and writes them\<close>

definition is_digit :: "char \<Rightarrow> bool" where
  "is_digit c \<longleftrightarrow> 48 \<le> (of_char c :: nat) \<and> (of_char c :: nat) \<le> 57"



fun show_nat :: "nat \<Rightarrow> string" where
  "show_nat n =
     (if n < 10 then [char_of (48 + n)]
      else show_nat (n div 10) @ [char_of (48 + n mod 10)])"

declare show_nat.simps [simp del]

definition show_int :: "int \<Rightarrow> string" where
  "show_int i = (if i < 0 then ''-'' @ show_nat (nat (- i)) else show_nat (nat i))"


section \<open>Lua numbers\<close>

text \<open>
  A Lua 5.1 number is a double. A finite double is modelled by its rational value, and
  the result of an arithmetic operation is the exact result rounded to 53 significant
  bits, ties to even. The exponent range of doubles plays no part in the scripts: for a
  double \<open>x\<close>, the difference \<open>x - 1\<close> is zero or lies between \<open>2^-53\<close> and \<open>2^1024\<close> in
  magnitude, and the counters of \<open>INCR\<close> are 64-bit integers. The infinities and NaN,
  which \<open>cjson.encode\<close> refuses, are outside the model.

  \<open>binary_exponent x\<close> is the exponent \<open>e\<close> with \<open>2^e \<le> x < 2^(e+1)\<close>, for positive \<open>x\<close>.
\<close>

definition binary_exponent :: "rat \<Rightarrow> int" where
  "binary_exponent x =
     (if 1 \<le> x then bitlen \<lfloor>x\<rfloor> - 1 else - bitlen (\<lceil>1 / x\<rceil> - 1))"

definition round_half_even :: "rat \<Rightarrow> int" where
  "round_half_even y =
     (let f = \<lfloor>y\<rfloor>; r = y - of_int f
      in if r < 1 / 2 then f
         else if 1 / 2 < r then f + 1
         else if even f then f else f + 1)"

definition double_round :: "rat \<Rightarrow> rat" where
  "double_round x =
     (if x = 0 then 0
      else let ulp = 2 powi (binary_exponent \<bar>x\<bar> - 52)
           in of_int (round_half_even (x / ulp)) * ulp)"

text \<open>
  An integer reply of \<open>redis.call\<close> becomes a Lua number, and a Lua number that a
  script returns becomes an integer reply, truncated towards zero.
\<close>

definition number_of_integer :: "int \<Rightarrow> rat" where
  "number_of_integer i = double_round (of_int i)"

definition integer_of_number :: "rat \<Rightarrow> int" where
  "integer_of_number x = (if 0 \<le> x then \<lfloor>x\<rfloor> else \<lceil>x\<rceil>)"

section \<open>Lua values and the scripting environment\<close>

text \<open>
  \<open>LNull\<close> is \<open>cjson.null\<close>, the userdata that a JSON null decodes to. A table is an
  association list from keys to values.
\<close>

datatype lua_key = KStr string | KNum int

datatype lua_value =
    LNil
  | LBoolean bool
  | LNumber rat
  | LString string
  | LNull
  | LTable "(lua_key \<times> lua_value) list"

text \<open>
  The library functions of the scripting environment that the scripts call:
  \<open>tonumber\<close> on a string, \<open>cjson.decode\<close> (\<open>None\<close> when it raises) and
  \<open>cjson.encode\<close>; \<open>time_ms\<close> is the server's clock in milliseconds, to which
  \<open>EXPIRE\<close> adds the window. The scripts are verified for every such environment.
\<close>

record lua_env =
  tonumber :: "string \<Rightarrow> rat option"
  cjson_decode :: "string \<Rightarrow> lua_value option"
  cjson_encode :: "lua_value \<Rightarrow> string"
  time_ms :: int

text \<open>
  What a script hands back to Redis: \<open>nil\<close>, a number, or the string that
  \<open>cjson.encode\<close> produces for a table, written \<open>JsonReply t\<close> for the encoding of
  \<open>t\<close>; \<open>ErrorReply\<close> is a runtime error raised by the script or by \<open>redis.call\<close>.
\<close>

datatype reply = NilReply | JsonReply lua_value | IntegerReply int | ErrorReply string

section \<open>The decrement-with-burn script\<close>

text \<open>
  \<open>secret.viewsRemaining\<close> reads a field of a table (\<open>nil\<close> when it is missing); on a
  string it reads the \<open>string\<close> library and gives \<open>nil\<close>; on a number, a boolean or
  \<open>cjson.null\<close> it raises. The assignment to \<open>secret.viewsRemaining\<close> replaces the
  value of the field in place. The reply of \<open>TTL\<close> reaches the script as a Lua number,
  and \<open>SET\<close> reads the number of seconds that the script hands back as an integer.
\<close>

definition ATOMIC_DECREMENT_SCRIPT :: "lua_env \<Rightarrow> string \<Rightarrow> redis \<Rightarrow> reply \<times> redis" where
  "ATOMIC_DECREMENT_SCRIPT env key db =
     (case GET db key of
        None \<Rightarrow> (NilReply, db)
      | Some data \<Rightarrow>
          (case cjson_decode env data of
             None \<Rightarrow> (JsonReply (LTable [(KStr ''error'', LString ''invalid_json'')]), db)
           | Some (LTable fs) \<Rightarrow>
               (case map_of fs (KStr ''viewsRemaining'') of
                  Some (LNumber n) \<Rightarrow>
                    (let viewsRemaining = double_round (n - 1);
                         secret = AList.update (KStr ''viewsRemaining'') (LNumber viewsRemaining) fs
                     in
                     if viewsRemaining \<le> 0 then
                       (JsonReply
                          (LTable [(KStr ''secret'',
                                    LTable (AList.update (KStr ''viewsRemaining'') (LNumber 0) secret)),
                                   (KStr ''burned'', LBoolean True)]),
                        DEL db key)
                     else
                       (let ttl = number_of_integer (TTL db key) in
                        case (if ttl > 0
                              then SET_EX db key (cjson_encode env (LTable secret))
                                     (integer_of_number ttl)
                              else Inr (SET db key (cjson_encode env (LTable secret)))) of
                          Inl err \<Rightarrow> (ErrorReply err, db)
                        | Inr db' \<Rightarrow>
                            (JsonReply
                               (LTable [(KStr ''secret'', LTable secret),
                                        (KStr ''burned'', LBoolean False)]),
                             db')))
                | _ \<Rightarrow>
                    (JsonReply (LTable [(KStr ''error'', LString ''invalid_viewsRemaining_type'')]),
                     db))
           | Some (LString s) \<Rightarrow>
               (JsonReply (LTable [(KStr ''error'', LString ''invalid_viewsRemaining_type'')]), db)
           | Some _ \<Rightarrow> (ErrorReply ''attempt to index local secret'', db)))"

section \<open>The increment-with-limit script\<close>






section \<open>JavaScript values\<close>

text \<open>
  A JavaScript string is a sequence of 16-bit code units; a byte buffer is a list of
  bytes. \<open>str\<close> gives the code units of an ASCII literal. Numbers are modelled by
  their exact value (rounding to double precision and overflow to the infinities are
  not modelled).
\<close>

type_synonym jsstring = "16 word list"

definition str :: "string \<Rightarrow> jsstring" where
  "str s = map (\<lambda>c. of_nat (of_char c)) s"

datatype jsnumber = Num rat | NaN | PosInfinity | NegInfinity

datatype jsvalue =
    JSUndefined
  | JSNull
  | JSBoolean bool
  | JSNumber jsnumber
  | JSString jsstring
  | JSArray "jsvalue list"
  | JSObject "(jsstring \<times> jsvalue) list"

section \<open>\<open>JSON.parse\<close>\<close>

text \<open>
  The platform's JSON parser: \<open>None\<close> when it raises SyntaxError. The recursion is
  bounded by fuel, one unit for each value, element list or member list entered;
  \<open>JSON_parse\<close> starts it with twice the length of the input plus two.
\<close>

definition is_json_ws :: "16 word \<Rightarrow> bool" where
  "is_json_ws c \<longleftrightarrow> c = 0x20 \<or> c = 0x09 \<or> c = 0x0A \<or> c = 0x0D"

definition skip_ws :: "jsstring \<Rightarrow> jsstring" where
  "skip_ws s = dropWhile is_json_ws s"

definition is_dec_digit :: "16 word \<Rightarrow> bool" where
  "is_dec_digit c \<longleftrightarrow> 0x30 \<le> c \<and> c \<le> 0x39"

definition digits_nat :: "jsstring \<Rightarrow> nat" where
  "digits_nat ds = foldl (\<lambda>a c. a * 10 + (unat c - 48)) 0 ds"

definition scale10 :: "rat \<Rightarrow> int \<Rightarrow> rat" where
  "scale10 q e = (if 0 \<le> e then q * 10 ^ nat e else q / 10 ^ nat (- e))"

definition parse_fraction :: "jsstring \<Rightarrow> (jsstring \<times> jsstring) option" where
  "parse_fraction s =
     (case s of
        c # r \<Rightarrow>
          if c = 0x2E then
            (if takeWhile is_dec_digit r = [] then None
             else Some (takeWhile is_dec_digit r, dropWhile is_dec_digit r))
          else Some ([], s)
      | [] \<Rightarrow> Some ([], s))"

definition parse_exponent :: "jsstring \<Rightarrow> (int \<times> jsstring) option" where
  "parse_exponent s =
     (case s of
        c # r \<Rightarrow>
          if c = 0x65 \<or> c = 0x45 then
            (let neg = (take 1 r = [0x2D]);
                 r1 = (if take 1 r = [0x2D] \<or> take 1 r = [0x2B] then drop 1 r else r);
                 ds = takeWhile is_dec_digit r1
             in if ds = [] then None
                else Some (if neg then - int (digits_nat ds) else int (digits_nat ds),
                           dropWhile is_dec_digit r1))
          else Some (0, s)
      | [] \<Rightarrow> Some (0, s))"

definition parse_number :: "jsstring \<Rightarrow> (rat \<times> jsstring) option" where
  "parse_number s =
     (let neg = (take 1 s = [0x2D]);
          s1 = (if neg then drop 1 s else s);
          ip = takeWhile is_dec_digit s1
      in if ip = [] \<or> (1 < length ip \<and> take 1 ip = [0x30]) then None
         else
           (case parse_fraction (dropWhile is_dec_digit s1) of
              None \<Rightarrow> None
            | Some (fp, s2) \<Rightarrow>
                (case parse_exponent s2 of
                   None \<Rightarrow> None
                 | Some (e, s3) \<Rightarrow>
                     let m = scale10 (of_nat (digits_nat (ip @ fp))) (e - int (length fp))
                     in Some (if neg then - m else m, s3))))"

definition hex_val :: "16 word \<Rightarrow> nat option" where
  "hex_val c =
     (if 0x30 \<le> c \<and> c \<le> 0x39 then Some (unat c - 48)
      else if 0x41 \<le> c \<and> c \<le> 0x46 then Some (unat c - 55)
      else if 0x61 \<le> c \<and> c \<le> 0x66 then Some (unat c - 87)
      else None)"

definition hex4 :: "16 word \<Rightarrow> 16 word \<Rightarrow> 16 word \<Rightarrow> 16 word \<Rightarrow> 16 word option" where
  "hex4 a b c d =
     (case (hex_val a, hex_val b, hex_val c, hex_val d) of
        (Some x, Some y, Some z, Some w) \<Rightarrow> Some (of_nat (((x * 16 + y) * 16 + z) * 16 + w))
      | _ \<Rightarrow> None)"

definition simple_escape :: "16 word \<Rightarrow> 16 word option" where
  "simple_escape e =
     (if e = 0x22 \<or> e = 0x5C \<or> e = 0x2F then Some e
      else if e = 0x62 then Some 0x08
      else if e = 0x66 then Some 0x0C
      else if e = 0x6E then Some 0x0A
      else if e = 0x72 then Some 0x0D
      else if e = 0x74 then Some 0x09
      else None)"

fun parse_chars :: "jsstring \<Rightarrow> (jsstring \<times> jsstring) option" where
  "parse_chars [] = None"
| "parse_chars (c # cs) =
     (if c = 0x22 then Some ([], cs)
      else if c < 0x20 then None
      else if c = 0x5C then
        (case cs of
           [] \<Rightarrow> None
         | e # r \<Rightarrow>
             if e = 0x75 then
               (case r of
                  a # b # c' # d # r' \<Rightarrow>
                    (case hex4 a b c' d of
                       None \<Rightarrow> None
                     | Some u \<Rightarrow> map_option (\<lambda>(t, rest). (u # t, rest)) (parse_chars r'))
                | _ \<Rightarrow> None)
             else
               (case simple_escape e of
                  None \<Rightarrow> None
                | Some u \<Rightarrow> map_option (\<lambda>(t, rest). (u # t, rest)) (parse_chars r)))
      else map_option (\<lambda>(t, rest). (c # t, rest)) (parse_chars cs))"

fun parse_value :: "nat \<Rightarrow> jsstring \<Rightarrow> (jsvalue \<times> jsstring) option"
and parse_elements :: "nat \<Rightarrow> jsvalue list \<Rightarrow> jsstring \<Rightarrow> (jsvalue \<times> jsstring) option"
and parse_members :: "nat \<Rightarrow> (jsstring \<times> jsvalue) list \<Rightarrow> jsstring \<Rightarrow> (jsvalue \<times> jsstring) option"
where
  "parse_value 0 s = None"
| "parse_value (Suc fuel) s =
     (case skip_ws s of
        [] \<Rightarrow> None
      | c # r \<Rightarrow>
          if c = 0x7B then
            (if take 1 (skip_ws r) = [0x7D] then Some (JSObject [], drop 1 (skip_ws r))
             else parse_members fuel [] r)
          else if c = 0x5B then
            (if take 1 (skip_ws r) = [0x5D] then Some (JSArray [], drop 1 (skip_ws r))
             else parse_elements fuel [] r)
          else if c = 0x22 then
            map_option (\<lambda>(t, rest). (JSString t, rest)) (parse_chars r)
          else if c = 0x2D \<or> is_dec_digit c then
            map_option (\<lambda>(q, rest). (JSNumber (Num q), rest)) (parse_number (c # r))
          else if take 4 (c # r) = str ''true'' then Some (JSBoolean True, drop 4 (c # r))
          else if take 5 (c # r) = str ''false'' then Some (JSBoolean False, drop 5 (c # r))
          else if take 4 (c # r) = str ''null'' then Some (JSNull, drop 4 (c # r))
          else None)"
| "parse_elements 0 acc s = None"
| "parse_elements (Suc fuel) acc s =
     (case parse_value fuel s of
        None \<Rightarrow> None
      | Some (v, r) \<Rightarrow>
          (case skip_ws r of
             [] \<Rightarrow> None
           | c # r' \<Rightarrow>
               if c = 0x2C then parse_elements fuel (acc @ [v]) r'
               else if c = 0x5D then Some (JSArray (acc @ [v]), r')
               else None))"
| "parse_members 0 acc s = None"
| "parse_members (Suc fuel) acc s =
     (case skip_ws s of
        [] \<Rightarrow> None
      | q # r \<Rightarrow>
          if q = 0x22 then
            (case parse_chars r of
               None \<Rightarrow> None
             | Some (k, r1) \<Rightarrow>
                 (case skip_ws r1 of
                    [] \<Rightarrow> None
                  | c # r2 \<Rightarrow>
                      if c = 0x3A then
                        (case parse_value fuel r2 of
                           None \<Rightarrow> None
                         | Some (v, r3) \<Rightarrow>
                             (case skip_ws r3 of
                                [] \<Rightarrow> None
                              | d # r4 \<Rightarrow>
                                  if d = 0x2C then parse_members fuel (AList.update k v acc) r4
                                  else if d = 0x7D then Some (JSObject (AList.update k v acc), r4)
                                  else None))
                      else None))
          else None)"

definition JSON_parse :: "jsstring \<Rightarrow> jsvalue option" where
  "JSON_parse s =
     (case parse_value (2 * length s + 2) s of
        None \<Rightarrow> None
      | Some (v, r) \<Rightarrow> if skip_ws r = [] then Some v else None)"


section \<open>The error taxonomy\<close>

text \<open>
  The classes of \<open>errors.ts\<close>, each carrying its message. \<open>DOMException\<close> is the
  platform's own exception, which \<open>btoa\<close> raises and the module does not catch.
\<close>

datatype error =
    CryptoError jsstring
  | InvalidKeyError jsstring
  | InvalidBase64Error jsstring
  | InvalidIVError jsstring
  | DecryptionError jsstring
  | PayloadTooLargeError jsstring
  | InvalidResultError jsstring
  | DOMException jsstring

section \<open>The result parser for the increment script\<close>

text \<open>
  \<open>parseInt(s, 10)\<close>: leading white space is skipped, a sign is read, and the longest
  run of decimal digits that follows is the value; \<open>NaN\<close> when there is no digit.
\<close>

definition is_js_ws :: "16 word \<Rightarrow> bool" where
  "is_js_ws c \<longleftrightarrow>
     c \<in> {0x09, 0x0A, 0x0B, 0x0C, 0x0D, 0x20, 0xA0, 0x1680, 0x2028, 0x2029, 0x202F,
          0x205F, 0x3000, 0xFEFF} \<or> (0x2000 \<le> c \<and> c \<le> 0x200A)"

definition parseInt10 :: "jsstring \<Rightarrow> jsnumber" where
  "parseInt10 s =
     (let s1 = dropWhile is_js_ws s;
          neg = (take 1 s1 = [0x2D]);
          s2 = (if take 1 s1 = [0x2D] \<or> take 1 s1 = [0x2B] then drop 1 s1 else s1);
          z = takeWhile is_dec_digit s2
      in if z = [] then NaN
         else Num (if neg then - of_nat (digits_nat z) else of_nat (digits_nat z)))"

definition isNaN :: "jsnumber \<Rightarrow> bool" where
  "isNaN n \<longleftrightarrow> n = NaN"

definition isLuaScriptError :: "jsvalue \<Rightarrow> bool" where
  "isLuaScriptError v =
     (case v of
        JSObject fs \<Rightarrow>
          (case map_of fs (str ''error'') of Some (JSString reason) \<Rightarrow> True | _ \<Rightarrow> False)
      | _ \<Rightarrow> False)"

definition error_of :: "jsvalue \<Rightarrow> jsstring" where
  "error_of v =
     (case v of
        JSObject fs \<Rightarrow>
          (case map_of fs (str ''error'') of Some (JSString reason) \<Rightarrow> reason | _ \<Rightarrow> [])
      | _ \<Rightarrow> [])"

definition parseIncrementResult :: "jsvalue \<Rightarrow> error + jsnumber option" where
  "parseIncrementResult result =
     (case result of
        JSNull \<Rightarrow> Inr None
      | JSUndefined \<Rightarrow> Inr None
      | JSNumber n \<Rightarrow> Inr (Some n)
      | JSString s \<Rightarrow>
          (case JSON_parse s of
             None \<Rightarrow>
               (let num = parseInt10 s
                in if \<not> isNaN num then Inr (Some num)
                   else Inl (InvalidResultError
                          (str ''Invalid increment result: expected number or JSON'')))
           | Some parsed \<Rightarrow>
               (case parsed of
                  JSNumber n \<Rightarrow> Inr (Some n)
                | _ \<Rightarrow>
                    if isLuaScriptError parsed then
                      Inl (InvalidResultError (str ''Lua script error: '' @ error_of parsed))
                    else
                      Inl (InvalidResultError
                        (str ''Invalid increment result: expected number or error object''))))
      | _ \<Rightarrow>
          if isLuaScriptError result then
            Inl (InvalidResultError (str ''Lua script error: '' @ error_of result))
          else
            Inl (InvalidResultError (str ''Invalid increment result: unexpected result type'')))"

section \<open>Base64: \<open>btoa\<close> and \<open>atob\<close>\<close>

type_synonym bytes = "8 word list"

definition b64_char :: "nat \<Rightarrow> 16 word" where
  "b64_char n =
     (if n < 26 then of_nat (65 + n)
      else if n < 52 then of_nat (71 + n)
      else if n < 62 then of_nat (n - 4)
      else if n = 62 then 0x2B
      else 0x2F)"

definition b64_val :: "16 word \<Rightarrow> nat option" where
  "b64_val c =
     (if 0x41 \<le> c \<and> c \<le> 0x5A then Some (unat c - 65)
      else if 0x61 \<le> c \<and> c \<le> 0x7A then Some (unat c - 71)
      else if 0x30 \<le> c \<and> c \<le> 0x39 then Some (unat c + 4)
      else if c = 0x2B then Some 62
      else if c = 0x2F then Some 63
      else None)"

fun btoa_groups :: "nat list \<Rightarrow> jsstring" where
  "btoa_groups (a # b # c # r) =
     b64_char (a div 4) # b64_char ((a mod 4) * 16 + b div 16) #
     b64_char ((b mod 16) * 4 + c div 64) # b64_char (c mod 64) # btoa_groups r"
| "btoa_groups [a, b] =
     [b64_char (a div 4), b64_char ((a mod 4) * 16 + b div 16), b64_char ((b mod 16) * 4), 0x3D]"
| "btoa_groups [a] = [b64_char (a div 4), b64_char ((a mod 4) * 16), 0x3D, 0x3D]"
| "btoa_groups [] = []"

text \<open>\<open>btoa\<close> raises when a code unit of its argument is above 0xFF.\<close>

definition btoa :: "jsstring \<Rightarrow> jsstring option" where
  "btoa s = (if list_all (\<lambda>c. c \<le> 0xFF) s then Some (btoa_groups (map unat s)) else None)"

fun atob_groups :: "nat list \<Rightarrow> nat list" where
  "atob_groups (v1 # v2 # v3 # v4 # r) =
     (v1 * 4 + v2 div 16) # ((v2 mod 16) * 16 + v3 div 4) # ((v3 mod 4) * 64 + v4) # atob_groups r"
| "atob_groups [v1, v2, v3] = [v1 * 4 + v2 div 16, (v2 mod 16) * 16 + v3 div 4]"
| "atob_groups [v1, v2] = [v1 * 4 + v2 div 16]"
| "atob_groups [v1] = []"
| "atob_groups [] = []"

definition is_ascii_ws :: "16 word \<Rightarrow> bool" where
  "is_ascii_ws c \<longleftrightarrow> c = 0x09 \<or> c = 0x0A \<or> c = 0x0C \<or> c = 0x0D \<or> c = 0x20"

definition strip_padding :: "jsstring \<Rightarrow> jsstring" where
  "strip_padding d =
     (if length d mod 4 = 0 then
        (if 2 \<le> length d \<and> drop (length d - 2) d = [0x3D, 0x3D] then take (length d - 2) d
         else if 1 \<le> length d \<and> drop (length d - 1) d = [0x3D] then take (length d - 1) d
         else d)
      else d)"

text \<open>
  \<open>atob\<close> is the platform's forgiving base64 decoder: it removes ASCII white space,
  removes one or two trailing \<open>=\<close> when the length is a multiple of four, and raises
  when the remaining length is 1 modulo 4 or a character is outside the standard alphabet.
  The result is a string of code units below 256.
\<close>

definition atob :: "jsstring \<Rightarrow> jsstring option" where
  "atob s =
     (let d = strip_padding (filter (\<lambda>c. \<not> is_ascii_ws c) s)
      in if length d mod 4 = 1 then None
         else (case those (map b64_val d) of
                 None \<Rightarrow> None
               | Some vs \<Rightarrow> Some (map of_nat (atob_groups vs))))"

section \<open>The base64url codec of \<open>crypto.ts\<close>\<close>

definition CHUNK_SIZE :: nat where
  "CHUNK_SIZE = 0x8000"

definition fromCharCode :: "bytes \<Rightarrow> jsstring" where
  "fromCharCode bs = map ucast bs"

function chunk_strings :: "bytes \<Rightarrow> jsstring list" where
  "chunk_strings bs =
     (if bs = [] then []
      else fromCharCode (take CHUNK_SIZE bs) # chunk_strings (drop CHUNK_SIZE bs))"
  by pat_completeness auto
termination
  by (relation "measure length") (auto simp add: CHUNK_SIZE_def)

declare chunk_strings.simps [simp del]

definition replace_char :: "16 word \<Rightarrow> 16 word \<Rightarrow> jsstring \<Rightarrow> jsstring" where
  "replace_char a b s = map (\<lambda>c. if c = a then b else c) s"

definition strip_trailing_equals :: "jsstring \<Rightarrow> jsstring" where
  "strip_trailing_equals s = rev (dropWhile (\<lambda>c. c = 0x3D) (rev s))"

definition bufferToBase64Url :: "bytes \<Rightarrow> error + jsstring" where
  "bufferToBase64Url bs =
     (case btoa (concat (chunk_strings bs)) of
        None \<Rightarrow> Inl (DOMException (str ''Invalid character''))
      | Some b64 \<Rightarrow>
          Inr (strip_trailing_equals (replace_char 0x2F 0x5F (replace_char 0x2B 0x2D b64))))"

definition add_padding :: "jsstring \<Rightarrow> jsstring option" where
  "add_padding base64 =
     (let padding = length base64 mod 4
      in if padding = 2 then Some (base64 @ str ''=='')
         else if padding = 3 then Some (base64 @ str ''='')
         else if padding = 1 then None
         else Some base64)"

definition base64UrlToBuffer :: "jsstring \<Rightarrow> error + bytes" where
  "base64UrlToBuffer base64url =
     (case add_padding (replace_char 0x5F 0x2F (replace_char 0x2D 0x2B base64url)) of
        None \<Rightarrow> Inl (InvalidBase64Error (str ''Invalid base64 string: incorrect length''))
      | Some base64 \<Rightarrow>
          (case atob base64 of
             None \<Rightarrow>
               Inl (InvalidBase64Error (str ''Invalid base64 string: contains invalid characters''))
           | Some binary \<Rightarrow> Inr (map ucast binary)))"


section \<open>\<open>TextEncoder\<close> and \<open>TextDecoder\<close>\<close>

text \<open>
  \<open>TextEncoder.encode\<close> first reads the string as Unicode scalar values: a high
  surrogate followed by a low surrogate is one supplementary code point, any other
  surrogate is replaced by U+FFFD. Each scalar value is then written in UTF-8.
\<close>

definition is_high_surrogate :: "16 word \<Rightarrow> bool" where
  "is_high_surrogate c \<longleftrightarrow> 0xD800 \<le> c \<and> c \<le> 0xDBFF"

definition is_low_surrogate :: "16 word \<Rightarrow> bool" where
  "is_low_surrogate c \<longleftrightarrow> 0xDC00 \<le> c \<and> c \<le> 0xDFFF"

fun scalar_values :: "jsstring \<Rightarrow> nat list" where
  "scalar_values [] = []"
| "scalar_values [c] =
     (if is_high_surrogate c \<or> is_low_surrogate c then [0xFFFD] else [unat c])"
| "scalar_values (c # d # r) =
     (if is_high_surrogate c then
        (if is_low_surrogate d
         then (0x10000 + (unat c - 0xD800) * 0x400 + (unat d - 0xDC00)) # scalar_values r
         else 0xFFFD # scalar_values (d # r))
      else if is_low_surrogate c then 0xFFFD # scalar_values (d # r)
      else unat c # scalar_values (d # r))"

definition utf8_encode_scalar :: "nat \<Rightarrow> bytes" where
  "utf8_encode_scalar cp =
     (if cp < 0x80 then [of_nat cp]
      else if cp < 0x800 then [of_nat (0xC0 + cp div 64), of_nat (0x80 + cp mod 64)]
      else if cp < 0x10000 then
        [of_nat (0xE0 + cp div 4096), of_nat (0x80 + cp div 64 mod 64), of_nat (0x80 + cp mod 64)]
      else
        [of_nat (0xF0 + cp div 262144), of_nat (0x80 + cp div 4096 mod 64),
         of_nat (0x80 + cp div 64 mod 64), of_nat (0x80 + cp mod 64)])"

definition TextEncoder_encode :: "jsstring \<Rightarrow> bytes" where
  "TextEncoder_encode s = concat (map utf8_encode_scalar (scalar_values s))"

text \<open>
  \<open>TextDecoder.decode\<close> with the default options (UTF-8, not fatal, the byte order mark
  not ignored): a leading EF BB BF is dropped, and the bytes go through the UTF-8
  decoder of the Encoding standard, whose state is the code point being assembled, the
  number of continuation bytes seen and needed, and the bounds on the next byte. A
  malformed sequence gives U+FFFD, and the byte that broke it is read again.
\<close>

function utf8_decode ::
    "nat \<Rightarrow> nat \<Rightarrow> nat \<Rightarrow> nat \<Rightarrow> nat \<Rightarrow> bytes \<Rightarrow> nat list" where
  "utf8_decode cp seen needed lower upper [] = (if needed \<noteq> 0 then [0xFFFD] else [])"
| "utf8_decode cp seen needed lower upper (b # bs) =
     (if needed = 0 then
        (if unat b \<le> 0x7F then unat b # utf8_decode 0 0 0 0x80 0xBF bs
         else if 0xC2 \<le> unat b \<and> unat b \<le> 0xDF then
           utf8_decode (unat b mod 32) 0 1 0x80 0xBF bs
         else if 0xE0 \<le> unat b \<and> unat b \<le> 0xEF then
           utf8_decode (unat b mod 16) 0 2
             (if unat b = 0xE0 then 0xA0 else 0x80) (if unat b = 0xED then 0x9F else 0xBF) bs
         else if 0xF0 \<le> unat b \<and> unat b \<le> 0xF4 then
           utf8_decode (unat b mod 8) 0 3
             (if unat b = 0xF0 then 0x90 else 0x80) (if unat b = 0xF4 then 0x8F else 0xBF) bs
         else 0xFFFD # utf8_decode 0 0 0 0x80 0xBF bs)
      else if \<not> (lower \<le> unat b \<and> unat b \<le> upper) then
        0xFFFD # utf8_decode 0 0 0 0x80 0xBF (b # bs)
      else if seen + 1 \<noteq> needed then
        utf8_decode (cp * 64 + unat b mod 64) (seen + 1) needed 0x80 0xBF bs
      else (cp * 64 + unat b mod 64) # utf8_decode 0 0 0 0x80 0xBF bs)"
  by pat_completeness auto
termination
  by (relation "measure (\<lambda>(cp, seen, needed, lower, upper, bs).
        2 * length bs + (if needed = 0 then 0 else 1))") auto

declare utf8_decode.simps [simp del]

definition code_units :: "nat \<Rightarrow> jsstring" where
  "code_units cp =
     (if cp < 0x10000 then [of_nat cp]
      else [of_nat (0xD800 + (cp - 0x10000) div 0x400), of_nat (0xDC00 + (cp - 0x10000) mod 0x400)])"

definition drop_bom :: "bytes \<Rightarrow> bytes" where
  "drop_bom bs = (if take 3 bs = [0xEF, 0xBB, 0xBF] then drop 3 bs else bs)"

definition TextDecoder_decode :: "bytes \<Rightarrow> jsstring" where
  "TextDecoder_decode bs = concat (map code_units (utf8_decode 0 0 0 0x80 0xBF (drop_bom bs)))"

section \<open>The cipher engine and the key manager of \<open>crypto.ts\<close>\<close>

text \<open>
  The Web Crypto provider is a parameter: \<open>subtle_encrypt\<close> and \<open>subtle_decrypt\<close> take
  the initialisation vector, the key and the data, and either give the result or
  throw. A thrown value is an \<open>Error\<close> with its message, or something else.
  A key is its raw bytes.
\<close>

datatype CryptoKey = CryptoKey (raw_key: bytes)

datatype thrown = ThrownError jsstring | ThrownOther

record subtle_crypto =
  subtle_encrypt :: "bytes \<Rightarrow> CryptoKey \<Rightarrow> bytes \<Rightarrow> thrown + bytes"
  subtle_decrypt :: "bytes \<Rightarrow> CryptoKey \<Rightarrow> bytes \<Rightarrow> thrown + bytes"

record EncryptedData =
  version :: nat
  ciphertext :: jsstring
  iv :: jsstring

record EncryptOptions =
  maxBytes :: "int option"

definition IV_LENGTH :: nat where
  "IV_LENGTH = 12"

definition KEY_LENGTH :: nat where
  "KEY_LENGTH = 256"

definition KEY_BYTES :: nat where
  "KEY_BYTES = KEY_LENGTH div 8"

definition MAX_PLAINTEXT_BYTES :: int where
  "MAX_PLAINTEXT_BYTES = 1024 * 1024"

definition number_string :: "int \<Rightarrow> jsstring" where
  "number_string i = str (show_int i)"

definition thrown_message :: "thrown \<Rightarrow> string \<Rightarrow> jsstring" where
  "thrown_message t fallback = (case t of ThrownError m \<Rightarrow> m | ThrownOther \<Rightarrow> str fallback)"

text \<open>
  \<open>encrypt\<close> takes, besides the source's arguments, the provider and the twelve bytes
  that \<open>crypto.getRandomValues\<close> puts into the initialisation vector.
\<close>

definition maxBytes_or_default :: "EncryptOptions option \<Rightarrow> int" where
  "maxBytes_or_default options =
     (case options of
        None \<Rightarrow> MAX_PLAINTEXT_BYTES
      | Some opts \<Rightarrow> (case maxBytes opts of None \<Rightarrow> MAX_PLAINTEXT_BYTES | Some m \<Rightarrow> m))"

definition encrypt ::
    "subtle_crypto \<Rightarrow> bytes \<Rightarrow> jsstring \<Rightarrow> CryptoKey \<Rightarrow> EncryptOptions option \<Rightarrow> error + EncryptedData" where
  "encrypt sc random_iv plaintext key options =
     (let maxBytes = maxBytes_or_default options;
          data = TextEncoder_encode plaintext
      in if int (length data) > maxBytes then
           Inl (PayloadTooLargeError
                 (str ''Plaintext exceeds maximum size: '' @ number_string (int (length data)) @
                  str '' > '' @ number_string maxBytes @ str '' bytes''))
         else
           (case subtle_encrypt sc random_iv key data of
              Inl e \<Rightarrow>
                Inl (CryptoError (str ''Encryption failed: '' @ thrown_message e ''unknown error''))
            | Inr ciphertextBuffer \<Rightarrow>
                (case bufferToBase64Url ciphertextBuffer of
                   Inl e \<Rightarrow> Inl e
                 | Inr c \<Rightarrow>
                     (case bufferToBase64Url random_iv of
                        Inl e \<Rightarrow> Inl e
                      | Inr i \<Rightarrow> Inr \<lparr>version = 1, ciphertext = c, iv = i\<rparr>))))"

definition decrypt :: "subtle_crypto \<Rightarrow> jsstring \<Rightarrow> jsstring \<Rightarrow> CryptoKey \<Rightarrow> error + jsstring" where
  "decrypt sc ciphertext_b64 iv_b64 key =
     (case base64UrlToBuffer ciphertext_b64 of
        Inl e \<Rightarrow> Inl e
      | Inr ciphertextArray \<Rightarrow>
          (case base64UrlToBuffer iv_b64 of
             Inl e \<Rightarrow> Inl e
           | Inr ivArray \<Rightarrow>
               if length ivArray \<noteq> IV_LENGTH then
                 Inl (InvalidIVError
                       (str ''Invalid IV length: expected '' @ number_string (int IV_LENGTH) @
                        str '' bytes, got '' @ number_string (int (length ivArray))))
               else
                 (case subtle_decrypt sc ivArray key ciphertextArray of
                    Inl e \<Rightarrow>
                      Inl (DecryptionError
                            (str ''Decryption failed: '' @
                             thrown_message e ''authentication tag mismatch or corrupted data''))
                  | Inr decryptedBuffer \<Rightarrow> Inr (TextDecoder_decode decryptedBuffer))))"

definition keyToBase64 :: "CryptoKey \<Rightarrow> error + jsstring" where
  "keyToBase64 key = bufferToBase64Url (raw_key key)"

text \<open>
  \<open>base64ToKey\<close> is typed for a string, and is called with other values too (the tests
  pass \<open>null\<close> and \<open>undefined\<close>), so its argument is any value. A string is falsy
  exactly when it is empty; every other value fails the \<open>typeof\<close> test.
\<close>

definition base64ToKey :: "jsvalue \<Rightarrow> error + CryptoKey" where
  "base64ToKey base64 =
     (case base64 of
        JSString s \<Rightarrow>
          if s = [] then Inl (InvalidKeyError (str ''Invalid key: expected non-empty string''))
          else
            (case base64UrlToBuffer s of
               Inl e \<Rightarrow> Inl e
             | Inr keyArray \<Rightarrow>
                 if length keyArray \<noteq> KEY_BYTES then
                   Inl (InvalidKeyError
                         (str ''Invalid key length: expected '' @ number_string (int KEY_BYTES) @
                          str '' bytes, got '' @ number_string (int (length keyArray))))
                 else Inr (CryptoKey keyArray))
      | _ \<Rightarrow> Inl (InvalidKeyError (str ''Invalid key: expected non-empty string'')))"


section \<open>A JSON environment for running the scripts\<close>

text \<open>
  One scripting environment, used to run the scripts on concrete stores of ASCII
  records. Numbers are read as \<open>strtod\<close> reads them, to the nearest double:
  \<open>strtod_round\<close> rounds a rational to a double, subnormal below \<open>2^-1022\<close>, and gives
  \<open>None\<close> where the result is an infinity.
\<close>

definition strtod_round :: "rat \<Rightarrow> rat option" where
  "strtod_round x =
     (if x = 0 then Some 0
      else if binary_exponent \<bar>x\<bar> < - 1022 then
        Some (of_int (round_half_even (x * 2 ^ 1074)) / 2 ^ 1074)
      else let r = double_round x in if 1024 \<le> binary_exponent \<bar>r\<bar> then None else Some r)"

text \<open>
  \<open>cjson.decode\<close> is the JSON parser above followed by the translation of its result
  into Lua values: an array becomes a table indexed from 1, an object a table in which
  the last value given for a key stands, a number the nearest double.
\<close>

fun lua_of_js :: "jsvalue \<Rightarrow> lua_value option" where
  "lua_of_js JSUndefined = None"
| "lua_of_js JSNull = Some LNull"
| "lua_of_js (JSBoolean b) = Some (LBoolean b)"
| "lua_of_js (JSNumber n) =
     (case n of
        Num q \<Rightarrow> map_option LNumber (strtod_round q)
      | _ \<Rightarrow> None)"
| "lua_of_js (JSString s) = Some (LString (map (\<lambda>c. char_of (unat c)) s))"
| "lua_of_js (JSArray vs) =
     map_option (\<lambda>ws. LTable (zip (map (\<lambda>i. KNum (int i)) [1 ..< Suc (length ws)]) ws))
       (those (map lua_of_js vs))"
| "lua_of_js (JSObject fs) =
     map_option
       (\<lambda>ws. LTable (fold (\<lambda>f. AList.update (fst f) (snd f))
                          (zip (map (\<lambda>f. KStr (map (\<lambda>c. char_of (unat c)) (fst f))) fs) ws) []))
       (those (map (\<lambda>f. lua_of_js (snd f)) fs))"

definition json_decode :: "string \<Rightarrow> lua_value option" where
  "json_decode s =
     (case JSON_parse (map (\<lambda>c. of_nat (of_char c)) s) of
        None \<Rightarrow> None
      | Some v \<Rightarrow> lua_of_js v)"

text \<open>
  \<open>cjson.encode\<close> writes a string between double quotes, with a backslash before the
  double quote, the backslash and the slash, and the control characters escaped.
\<close>

definition hex_digit_char :: "nat \<Rightarrow> char" where
  "hex_digit_char n = ''0123456789abcdef'' ! n"

definition json_escape :: "char \<Rightarrow> string" where
  "json_escape c =
     (let n = (of_char c :: nat) in
      if n = 0x22 \<or> n = 0x5C \<or> n = 0x2F then [CHR 0x5C, c]
      else if n = 8 then [CHR 0x5C, CHR ''b'']
      else if n = 9 then [CHR 0x5C, CHR ''t'']
      else if n = 10 then [CHR 0x5C, CHR ''n'']
      else if n = 12 then [CHR 0x5C, CHR ''f'']
      else if n = 13 then [CHR 0x5C, CHR ''r'']
      else if n < 32 \<or> n = 127 then
        [CHR 0x5C, CHR ''u'', CHR ''0'', CHR ''0'', hex_digit_char (n div 16), hex_digit_char (n mod 16)]
      else [c])"

definition json_quote :: "string \<Rightarrow> string" where
  "json_quote s = [CHR 0x22] @ concat (map json_escape s) @ [CHR 0x22]"

text \<open>
  A number is written as \<open>printf\<close> writes it with the format \<open>%.14g\<close>: rounded to
  fourteen significant digits, without trailing zeros, and with an exponent when the
  decimal exponent is below \<open>-4\<close> or at least 14. A table whose keys are 1, 2, ... is
  written as an array, any other table as an object.
\<close>

function decimal_digits :: "int \<Rightarrow> string" where
  "decimal_digits n =
     (if n < 10 then [char_of (48 + nat n)]
      else decimal_digits (n div 10) @ [char_of (48 + nat (n mod 10))])"
  by pat_completeness auto

termination
  by (relation "measure nat") auto

declare decimal_digits.simps [simp del]

definition decimal_exponent :: "rat \<Rightarrow> int" where
  "decimal_exponent x =
     (if 1 \<le> x then int (length (decimal_digits \<lfloor>x\<rfloor>)) - 1
      else - int (length (decimal_digits (\<lceil>1 / x\<rceil> - 1))))"

definition strip_zeros :: "string \<Rightarrow> string" where
  "strip_zeros ds = rev (dropWhile (\<lambda>c. c = CHR ''0'') (rev ds))"

definition format_g14 :: "rat \<Rightarrow> string" where
  "format_g14 x =
     (if x = 0 then ''0''
      else
        let e0 = decimal_exponent \<bar>x\<bar>;
            m0 = round_half_even (\<bar>x\<bar> / 10 powi (e0 - 13));
            e = (if m0 = 10 ^ 14 then e0 + 1 else e0);
            m = (if m0 = 10 ^ 14 then 10 ^ 13 else m0);
            ds = decimal_digits m;
            body =
              (if e < - 4 \<or> 14 \<le> e then
                 take 1 ds @ (if strip_zeros (drop 1 ds) = [] then [] else ''.'' @ strip_zeros (drop 1 ds)) @
                 ''e'' @ (if e < 0 then ''-'' else ''+'') @
                 (if \<bar>e\<bar> < 10 then ''0'' else []) @ decimal_digits \<bar>e\<bar>
               else if 0 \<le> e then
                 take (nat e + 1) ds @
                 (if strip_zeros (drop (nat e + 1) ds) = [] then []
                  else ''.'' @ strip_zeros (drop (nat e + 1) ds))
               else ''0.'' @ replicate (nat (- e) - 1) (CHR ''0'') @ strip_zeros ds)
        in (if x < 0 then ''-'' else []) @ body)"

fun join_with_commas :: "string list \<Rightarrow> string" where
  "join_with_commas [] = []"
| "join_with_commas [x] = x"
| "join_with_commas (x # y # r) = x @ '','' @ join_with_commas (y # r)"

fun json_encode :: "lua_value \<Rightarrow> string" where
  "json_encode LNil = ''null''"
| "json_encode LNull = ''null''"
| "json_encode (LBoolean b) = (if b then ''true'' else ''false'')"
| "json_encode (LNumber n) = format_g14 n"
| "json_encode (LString s) = json_quote s"
| "json_encode (LTable fs) =
     (if fs \<noteq> [] \<and> map fst fs = map (\<lambda>i. KNum (int i)) [1 ..< Suc (length fs)] then
        ''['' @ join_with_commas (map (\<lambda>f. json_encode (snd f)) fs) @ '']''
      else
        ''{'' @
        join_with_commas
          (map (\<lambda>f. (case fst f of KStr k \<Rightarrow> json_quote k | KNum i \<Rightarrow> json_quote (show_int i)) @
                    '':'' @ json_encode (snd f)) fs) @
        ''}'')"

text \<open>
  \<open>tonumber\<close> on a string is \<open>strtod\<close>: white space, an optional sign, then either
  decimal digits with an optional fraction and an optional exponent, or \<open>0x\<close> and
  hexadecimal digits with an optional fraction and an optional binary exponent; only
  white space may follow. The texts \<open>inf\<close> and \<open>nan\<close>, whose values are outside the
  model, are not read.
\<close>

definition is_space :: "char \<Rightarrow> bool" where
  "is_space c \<longleftrightarrow> (of_char c :: nat) = 32 \<or> (9 \<le> (of_char c :: nat) \<and> (of_char c :: nat) \<le> 13)"

definition hex_digit_value :: "char \<Rightarrow> int option" where
  "hex_digit_value c =
     (let n = (of_char c :: nat) in
      if 48 \<le> n \<and> n \<le> 57 then Some (int n - 48)
      else if 65 \<le> n \<and> n \<le> 70 then Some (int n - 55)
      else if 97 \<le> n \<and> n \<le> 102 then Some (int n - 87)
      else None)"

definition is_hex_digit :: "char \<Rightarrow> bool" where
  "is_hex_digit c \<longleftrightarrow> hex_digit_value c \<noteq> None"

definition digits_in_base :: "int \<Rightarrow> string \<Rightarrow> int" where
  "digits_in_base b ds = foldl (\<lambda>acc c. acc * b + (case hex_digit_value c of Some d \<Rightarrow> d | None \<Rightarrow> 0)) 0 ds"

definition signed_part :: "string \<Rightarrow> bool \<times> string" where
  "signed_part s =
     (if take 1 s = ''-'' then (True, drop 1 s)
      else if take 1 s = ''+'' then (False, drop 1 s)
      else (False, s))"

definition exponent_part :: "char \<Rightarrow> char \<Rightarrow> string \<Rightarrow> int \<times> string" where
  "exponent_part lower upper s =
     (if take 1 s = [lower] \<or> take 1 s = [upper] then
        (let (neg, t) = signed_part (drop 1 s);
             ds = takeWhile is_digit t
         in if ds = [] then (0, s)
            else ((if neg then - digits_in_base 10 ds else digits_in_base 10 ds),
                  dropWhile is_digit t))
      else (0, s))"

definition mantissa_part :: "(char \<Rightarrow> bool) \<Rightarrow> string \<Rightarrow> (string \<times> string \<times> string) option" where
  "mantissa_part is_d s =
     (let ip = takeWhile is_d s;
          r = dropWhile is_d s;
          fp = (if take 1 r = ''.'' then takeWhile is_d (drop 1 r) else []);
          t = (if take 1 r = ''.'' then dropWhile is_d (drop 1 r) else r)
      in if ip = [] \<and> fp = [] then None else Some (ip, fp, t))"

definition strtod :: "string \<Rightarrow> (rat \<times> string) option" where
  "strtod s =
     (let (neg, t) = signed_part (dropWhile is_space s);
          hex = (if take 2 t = ''0x'' \<or> take 2 t = ''0X''
                 then mantissa_part is_hex_digit (drop 2 t) else None)
      in case hex of
           Some (ip, fp, r) \<Rightarrow>
             (let (e, r') = exponent_part (CHR ''p'') (CHR ''P'') r;
                  v = of_int (digits_in_base 16 (ip @ fp)) * 2 powi (e - 4 * int (length fp))
              in map_option (\<lambda>d. (if neg then - d else d, r')) (strtod_round v))
         | None \<Rightarrow>
             (case mantissa_part is_digit t of
                None \<Rightarrow> None
              | Some (ip, fp, r) \<Rightarrow>
                  (let (e, r') = exponent_part (CHR ''e'') (CHR ''E'') r;
                       v = of_int (digits_in_base 10 (ip @ fp)) * 10 powi (e - int (length fp))
                   in map_option (\<lambda>d. (if neg then - d else d, r')) (strtod_round v))))"

definition lua_tonumber :: "string \<Rightarrow> rat option" where
  "lua_tonumber s =
     (case strtod s of
        None \<Rightarrow> None
      | Some (d, r) \<Rightarrow> if list_all is_space r then Some d else None)"

definition json_env :: lua_env where
  "json_env = \<lparr>tonumber = lua_tonumber, cjson_decode = json_decode, cjson_encode = json_encode,
       time_ms = 1762041600000\<rparr>"

section \<open>Concrete stores, keys and a stand-in provider\<close>

text \<open>Records and stores on which the scripts are run below.\<close>

definition record_text :: "int \<Rightarrow> string" where
  "record_text n = ''{\"viewsRemaining\":'' @ show_int n @ '',\"payload\":\"c2VjcmV0\"}''"

definition record_table :: "rat \<Rightarrow> lua_value" where
  "record_table n = LTable [(KStr ''viewsRemaining'', LNumber n), (KStr ''payload'', LString ''c2VjcmV0'')]"

definition secret_store :: "int \<Rightarrow> nat option \<Rightarrow> redis" where
  "secret_store n t = [''secret:abc'' \<mapsto> \<lparr>content = record_text n, expire_in = t\<rparr>]"




text \<open>
  A stand-in provider with the shape of AES-GCM, used to run \<open>encrypt\<close> and
  \<open>decrypt\<close> on concrete inputs: the data is masked with a byte derived from the key
  and the initialisation vector, sixteen bytes of tag follow, and decryption throws
  when the tag does not match.
\<close>

definition mask_byte :: "bytes \<Rightarrow> CryptoKey \<Rightarrow> 8 word" where
  "mask_byte nonce key = sum_list (raw_key key) + sum_list nonce"

definition stand_in_provider :: subtle_crypto where
  "stand_in_provider =
     \<lparr>subtle_encrypt = (\<lambda>nonce key data.
        Inr (map (\<lambda>b. b + mask_byte nonce key) data @ replicate 16 (mask_byte nonce key))),
      subtle_decrypt = (\<lambda>nonce key c.
        if length c < 16 \<or> drop (length c - 16) c \<noteq> replicate 16 (mask_byte nonce key)
        then Inl (ThrownError (str ''The operation failed for an operation-specific reason''))
        else Inr (map (\<lambda>b. b - mask_byte nonce key) (take (length c - 16) c)))\<rparr>"

definition example_key :: CryptoKey where
  "example_key = CryptoKey (map of_nat [1 ..< 33])"

definition example_iv :: bytes where
  "example_iv = map of_nat [101 ..< 113]"

section \<open>Notions used in the statements\<close>

text \<open>The base64url text of a buffer: what \<open>bufferToBase64Url\<close> computes when \<open>btoa\<close> does not raise.\<close>

definition base64url_of :: "bytes \<Rightarrow> jsstring" where
  "base64url_of bs =
     strip_trailing_equals
       (replace_char 0x2F 0x5F (replace_char 0x2B 0x2D (btoa_groups (map unat bs))))"

text \<open>The six-bit values that \<open>btoa\<close> writes for a list of byte values, without the padding.\<close>

fun sextets :: "nat list \<Rightarrow> nat list" where
  "sextets (a # b # c # r) =
     a div 4 # ((a mod 4) * 16 + b div 16) # ((b mod 16) * 4 + c div 64) # c mod 64 # sextets r"
| "sextets [a, b] = [a div 4, (a mod 4) * 16 + b div 16, (b mod 16) * 4]"
| "sextets [a] = [a div 4, (a mod 4) * 16]"
| "sextets [] = []"

text \<open>
  The last step of \<open>base64UrlToBuffer\<close>, on the padded standard text: \<open>atob\<close>, whose
  failure is reported as InvalidBase64Error, and the copy of its result into a buffer.
\<close>

definition atob_to_buffer :: "jsstring \<Rightarrow> error + bytes" where
  "atob_to_buffer base64 =
     (case atob base64 of
        None \<Rightarrow>
          Inl (InvalidBase64Error (str ''Invalid base64 string: contains invalid characters''))
      | Some binary \<Rightarrow> Inr (map ucast binary))"

definition to_standard :: "jsstring \<Rightarrow> jsstring" where
  "to_standard s = replace_char 0x5F 0x2F (replace_char 0x2D 0x2B s)"

definition to_url_safe :: "jsstring \<Rightarrow> jsstring" where
  "to_url_safe s = replace_char 0x2F 0x5F (replace_char 0x2B 0x2D s)"

text \<open>
  A Unicode scalar value: a code point that is not a surrogate. A well-formed string:
  every high surrogate is followed by a low surrogate, and there is no other surrogate.
\<close>

definition valid_scalar :: "nat \<Rightarrow> bool" where
  "valid_scalar cp \<longleftrightarrow> cp < 0x110000 \<and> \<not> (0xD800 \<le> cp \<and> cp \<le> 0xDFFF)"

fun well_formed :: "jsstring \<Rightarrow> bool" where
  "well_formed [] \<longleftrightarrow> True"
| "well_formed [c] \<longleftrightarrow> \<not> is_high_surrogate c \<and> \<not> is_low_surrogate c"
| "well_formed (c # d # r) \<longleftrightarrow>
     (if is_high_surrogate c then is_low_surrogate d \<and> well_formed r
      else \<not> is_low_surrogate c \<and> well_formed (d # r))"



section \<open>Rounding to a double\<close>

lemma binary_exponent_le:
  assumes "0 < x"
  shows "2 powi (binary_exponent x) \<le> x"
proof (cases "1 \<le> x")
  case True
  then have pos: "0 < \<lfloor>x\<rfloor>" by linarith
  then have b: "1 \<le> bitlen \<lfloor>x\<rfloor>"
    using bitlen_eq_zero_iff [of "\<lfloor>x\<rfloor>"] bitlen_nonneg [of "\<lfloor>x\<rfloor>"] by linarith
  from bitlen_bounds [OF pos] have "2 ^ nat (bitlen \<lfloor>x\<rfloor> - 1) \<le> \<lfloor>x\<rfloor>" by simp
  then have "(2 :: rat) ^ nat (bitlen \<lfloor>x\<rfloor> - 1) \<le> of_int \<lfloor>x\<rfloor>"
    by simp
  also have "\<dots> \<le> x" by (rule of_int_floor_le)
  finally have "(2 :: rat) ^ nat (bitlen \<lfloor>x\<rfloor> - 1) \<le> x" .
  with True b show ?thesis
    by (simp add: binary_exponent_def power_int_def)
next
  case False
  let ?m = "\<lceil>1 / x\<rceil> - 1"
  from False assms have "1 < 1 / x" by (simp add: field_simps)
  then have pos: "0 < ?m" by linarith
  from bitlen_bounds [OF pos] have "?m < 2 ^ nat (bitlen ?m)" by simp
  then have "\<lceil>1 / x\<rceil> \<le> 2 ^ nat (bitlen ?m)" by linarith
  then have "(of_int \<lceil>1 / x\<rceil> :: rat) \<le> 2 ^ nat (bitlen ?m)"
    by simp
  with le_of_int_ceiling [of "1 / x"] have "1 / x \<le> 2 ^ nat (bitlen ?m)"
    by (rule order_trans)
  with assms have "1 / 2 ^ nat (bitlen ?m) \<le> x"
    by (simp add: field_simps)
  moreover have "(2 :: rat) powi (- bitlen ?m) = 1 / 2 ^ nat (bitlen ?m)"
    by (simp only: power_int_minus_divide power_int_nonneg_exp [OF bitlen_nonneg])
  ultimately have "(2 :: rat) powi (- bitlen ?m) \<le> x" by simp
  with False show ?thesis
    by (simp only: binary_exponent_def if_False)
qed

lemma round_half_even_bounds:
  "\<lfloor>y\<rfloor> \<le> round_half_even y" "round_half_even y \<le> \<lceil>y\<rceil>"
proof -
  show "\<lfloor>y\<rfloor> \<le> round_half_even y"
    by (simp add: round_half_even_def Let_def)
  have "y = of_int \<lfloor>y\<rfloor> \<or> \<lceil>y\<rceil> = \<lfloor>y\<rfloor> + 1"
    by (metis ceiling_altdef)
  then show "round_half_even y \<le> \<lceil>y\<rceil>"
    by (auto simp add: round_half_even_def Let_def)
qed

lemma round_half_even_of_int: "round_half_even (of_int k) = k"
  by (simp add: round_half_even_def)

lemma ulp_bound:
  assumes "0 < x"
  shows "2 ^ 52 * 2 powi (binary_exponent x - 52) \<le> x"
proof -
  have "2 powi (binary_exponent x - 52) = 2 powi (binary_exponent x) / (2 :: rat) ^ 52"
    by (simp add: power_int_diff)
  with binary_exponent_le [OF assms] show ?thesis by simp
qed

text \<open>Rounding keeps the sign: a nonzero number is at least \<open>2^52\<close> units in the last place.\<close>

lemma double_round_pos:
  assumes "0 < x"
  shows "0 < double_round x"
proof -
  let ?u = "(2 :: rat) powi (binary_exponent \<bar>x\<bar> - 52)"
  have u: "0 < ?u" by (simp add: zero_less_power_int)
  from ulp_bound [of "\<bar>x\<bar>"] assms have "2 ^ 52 * ?u \<le> x" by simp
  with u have "2 ^ 52 \<le> x / ?u" by (simp add: pos_le_divide_eq)
  moreover have "(1 :: rat) \<le> 2 ^ 52" by simp
  ultimately have "1 \<le> x / ?u" by (rule order_trans [rotated])
  then have "1 \<le> \<lfloor>x / ?u\<rfloor>" by linarith
  with round_half_even_bounds(1) [of "x / ?u"] have "0 < round_half_even (x / ?u)" by linarith
  with u assms show ?thesis
    by (simp add: double_round_def Let_def)
qed

lemma double_round_neg:
  assumes "x < 0"
  shows "double_round x < 0"
proof -
  let ?u = "(2 :: rat) powi (binary_exponent \<bar>x\<bar> - 52)"
  have u: "0 < ?u" by (simp add: zero_less_power_int)
  from ulp_bound [of "\<bar>x\<bar>"] assms have "2 ^ 52 * ?u \<le> - x" by simp
  then have "2 ^ 52 \<le> (- x) / ?u" by (simp only: pos_le_divide_eq [OF u])
  moreover have "(1 :: rat) \<le> 2 ^ 52" by simp
  ultimately have "1 \<le> (- x) / ?u" by (rule order_trans [rotated])
  then have "x / ?u \<le> - 1" by simp
  then have "\<lceil>x / ?u\<rceil> \<le> - 1" by linarith
  with round_half_even_bounds(2) [of "x / ?u"] have "round_half_even (x / ?u) < 0" by linarith
  with u assms show ?thesis
    by (simp add: double_round_def Let_def mult_less_0_iff)
qed

lemma double_round_le_0_iff: "double_round x \<le> 0 \<longleftrightarrow> x \<le> 0"
proof -
  consider "x = 0" | "0 < x" | "x < 0" by linarith
  then show ?thesis
  proof cases
    case 1
    then show ?thesis by (simp add: double_round_def)
  next
    case 2
    with double_round_pos [of x] show ?thesis by linarith
  next
    case 3
    with double_round_neg [of x] show ?thesis by linarith
  qed
qed

text \<open>Whole numbers up to \<open>2^53\<close> in magnitude are doubles.\<close>

lemma double_round_whole:
  assumes "\<bar>k\<bar> \<le> 2 ^ 53"
  shows "double_round (of_int k) = of_int k"
proof (cases "k = 0")
  case True
  then show ?thesis by (simp add: double_round_def)
next
  case False
  let ?x = "of_int k :: rat"
  let ?e = "binary_exponent \<bar>?x\<bar>"
  let ?u = "(2 :: rat) powi (?e - 52)"
  from False have pos: "0 < \<bar>?x\<bar>" by simp
  have "\<bar>?x\<bar> \<le> 2 ^ 53"
    using assms by (metis of_int_abs of_int_le_numeral_power_cancel_iff)
  with binary_exponent_le [OF pos] have "(2 :: rat) powi ?e \<le> 2 powi 53" by simp
  then have e: "?e \<le> 53"
    by (rule power_int_le_imp_le_exp [rotated]) simp_all
  have "\<exists>j. ?x / ?u = of_int j"
  proof (cases "?e \<le> 52")
    case True
    then have "?x / ?u = ?x * 2 ^ nat (52 - ?e)"
      by (simp add: power_int_def field_simps)
    then have "?x / ?u = of_int (k * 2 ^ nat (52 - ?e))" by simp
    then show ?thesis by blast
  next
    case False
    with e have e53: "?e = 53" by linarith
    with binary_exponent_le [OF pos] have "2 ^ 53 \<le> \<bar>?x\<bar>" by simp
    with \<open>\<bar>?x\<bar> \<le> 2 ^ 53\<close> have "\<bar>?x\<bar> = 2 ^ 53" by linarith
    then have "?x = 2 ^ 53 \<or> ?x = - (2 ^ 53)" by linarith
    then have "?x / ?u = of_int (2 ^ 52) \<or> ?x / ?u = of_int (- (2 ^ 52))"
      using e53 by auto
    then show ?thesis by blast
  qed
  then obtain j where j: "?x / ?u = of_int j" ..
  have u: "?u \<noteq> 0" by simp
  from j have "of_int (round_half_even (?x / ?u)) * ?u = ?x / ?u * ?u"
    by (simp only: round_half_even_of_int)
  also have "\<dots> = ?x" using u by simp
  finally show ?thesis
    using False by (simp add: double_round_def Let_def)
qed

lemma binary_exponent_less:
  assumes "0 < x"
  shows "x < 2 powi (binary_exponent x + 1)"
proof (cases "1 \<le> x")
  case True
  then have pos: "0 < \<lfloor>x\<rfloor>" by linarith
  then have b: "1 \<le> bitlen \<lfloor>x\<rfloor>"
    using bitlen_eq_zero_iff [of "\<lfloor>x\<rfloor>"] bitlen_nonneg [of "\<lfloor>x\<rfloor>"] by linarith
  from bitlen_bounds [OF pos] have "\<lfloor>x\<rfloor> < 2 ^ nat (bitlen \<lfloor>x\<rfloor>)" by simp
  then have "x < of_int (2 ^ nat (bitlen \<lfloor>x\<rfloor>))" by (simp only: floor_less_iff)
  then have "x < 2 ^ nat (bitlen \<lfloor>x\<rfloor>)" by simp
  with True b show ?thesis
    by (simp add: binary_exponent_def power_int_def)
next
  case False
  let ?m = "\<lceil>1 / x\<rceil> - 1"
  from False assms have "1 < 1 / x" by (simp add: field_simps)
  then have pos: "0 < ?m" by linarith
  then have b: "1 \<le> bitlen ?m"
    using bitlen_eq_zero_iff [of ?m] bitlen_nonneg [of ?m] by linarith
  from bitlen_bounds [OF pos] have "2 ^ nat (bitlen ?m - 1) \<le> ?m" by simp
  then have "2 ^ nat (bitlen ?m - 1) < \<lceil>1 / x\<rceil>" by linarith
  then have "of_int (2 ^ nat (bitlen ?m - 1)) < 1 / x" by (simp only: less_ceiling_iff)
  then have "2 ^ nat (bitlen ?m - 1) < 1 / x" by simp
  with assms have "x < 1 / 2 ^ nat (bitlen ?m - 1)"
    by (simp add: field_simps)
  moreover have "(2 :: rat) powi (- bitlen ?m + 1) = 1 / 2 ^ nat (bitlen ?m - 1)"
  proof -
    have "(2 :: rat) powi (- bitlen ?m + 1) = 2 powi (- (bitlen ?m - 1))" by simp
    also have "\<dots> = 1 / 2 powi (bitlen ?m - 1)" by (rule power_int_minus_divide)
    also have "\<dots> = 1 / 2 ^ nat (bitlen ?m - 1)"
      using b by (simp add: power_int_nonneg_exp)
    finally show ?thesis .
  qed
  ultimately have "x < (2 :: rat) powi (- bitlen ?m + 1)" by simp
  with False show ?thesis
    by (simp only: binary_exponent_def if_False)
qed



lemma double_round_significand:
  assumes "x \<noteq> 0"
  shows "2 ^ 52 \<le> \<bar>round_half_even (x / 2 powi (binary_exponent \<bar>x\<bar> - 52))\<bar>"
    and "\<bar>round_half_even (x / 2 powi (binary_exponent \<bar>x\<bar> - 52))\<bar> \<le> 2 ^ 53"
proof -
  let ?e = "binary_exponent \<bar>x\<bar>"
  let ?u = "(2 :: rat) powi (?e - 52)"
  let ?y = "x / ?u"
  have u: "0 < ?u" by (simp add: zero_less_power_int)
  have pos: "0 < \<bar>x\<bar>" using assms by simp
  have lo: "2 ^ 52 * ?u \<le> \<bar>x\<bar>" by (rule ulp_bound [OF pos])
  have "2 powi (?e + 1) = 2 ^ 53 * ?u"
  proof -
    have "?e + 1 = 53 + (?e - 52)" by linarith
    then have "(2 :: rat) powi (?e + 1) = 2 powi (53 + (?e - 52))" by (rule arg_cong)
    also have "\<dots> = 2 powi 53 * 2 powi (?e - 52)" by (rule power_int_add) simp
    finally show ?thesis by simp
  qed
  with binary_exponent_less [OF pos] have hi: "\<bar>x\<bar> < 2 ^ 53 * ?u" by simp
  have ay: "\<bar>?y\<bar> = \<bar>x\<bar> / ?u" using u by (simp add: abs_divide)
  from lo u have l: "2 ^ 52 \<le> \<bar>?y\<bar>" unfolding ay by (simp add: pos_le_divide_eq)
  from hi u have h: "\<bar>?y\<bar> < 2 ^ 53" unfolding ay by (simp add: pos_divide_less_eq)
  have fl: "\<lfloor>?y\<rfloor> \<le> round_half_even ?y" and ce: "round_half_even ?y \<le> \<lceil>?y\<rceil>"
    by (rule round_half_even_bounds)+
  show "2 ^ 52 \<le> \<bar>round_half_even ?y\<bar>"
  proof (cases "0 \<le> ?y")
    case True
    then have "\<bar>?y\<bar> = ?y" by (rule abs_of_nonneg)
    with l have "2 ^ 52 \<le> ?y" by (simp only:)
    then have "of_int (2 ^ 52) \<le> ?y" by simp
    then have "2 ^ 52 \<le> \<lfloor>?y\<rfloor>" by (simp only: le_floor_iff)
    with fl show ?thesis by linarith
  next
    case False
    then have "\<bar>?y\<bar> = - ?y" by (simp only: abs_of_neg not_le)
    with l have "2 ^ 52 \<le> - ?y" by (simp only:)
    then have "?y \<le> of_int (- (2 ^ 52))" by simp
    then have "\<lceil>?y\<rceil> \<le> - (2 ^ 52)" by (simp only: ceiling_le_iff)
    with ce show ?thesis by linarith
  qed
  show "\<bar>round_half_even ?y\<bar> \<le> 2 ^ 53"
  proof -
    from h have a: "\<bar>?y\<bar> \<le> 2 ^ 53" by (rule less_imp_le)
    have "?y \<le> 2 ^ 53" using a by (rule abs_le_D1)
    moreover have "- ?y \<le> 2 ^ 53" using a by (rule abs_le_D2)
    ultimately have "?y \<le> of_int (2 ^ 53)" "of_int (- (2 ^ 53)) \<le> ?y" by simp_all
    then have "\<lceil>?y\<rceil> \<le> 2 ^ 53" "- (2 ^ 53) \<le> \<lfloor>?y\<rfloor>"
      by (simp_all only: ceiling_le_iff le_floor_iff)
    with fl ce show ?thesis by linarith
  qed
qed


lemma decrement_whole:
  assumes "\<bar>k - 1\<bar> \<le> 2 ^ 53"
  shows "double_round (of_int k - 1) = of_int k - 1"
  using double_round_whole [OF assms] by simp

lemma number_of_integer_whole:
  "\<bar>k\<bar> \<le> 2 ^ 53 \<Longrightarrow> number_of_integer k = of_int k"
  by (simp add: number_of_integer_def double_round_whole)





lemma integer_of_number_of_nat: "integer_of_number (of_nat t) = int t"
  by (simp add: integer_of_number_def)

section \<open>Verification of the decrement-with-burn script\<close>




text \<open>
  The expiry of the rewritten record is the one that \<open>TTL\<close> reported when that was
  positive, and is absent otherwise.
\<close>

lemma decrement_keep:
  assumes "db key = Some e" and "cjson_decode env (content e) = Some (LTable fs)"
    and "map_of fs (KStr ''viewsRemaining'') = Some (LNumber n)" and "0 < n - 1"
    and "\<forall>t. expire_in e = Some t \<longrightarrow> int t \<le> 2 ^ 53"
  shows "ATOMIC_DECREMENT_SCRIPT env key db =
     (JsonReply
        (LTable [(KStr ''secret'',
                  LTable (AList.update (KStr ''viewsRemaining'') (LNumber (double_round (n - 1))) fs)),
                 (KStr ''burned'', LBoolean False)]),
      db(key \<mapsto> \<lparr>content = cjson_encode env
                    (LTable (AList.update (KStr ''viewsRemaining'') (LNumber (double_round (n - 1))) fs)),
                  expire_in = (case expire_in e of
                                 None \<Rightarrow> None
                               | Some t \<Rightarrow> if 0 < t then Some t else None)\<rparr>))"
proof -
  from assms(4) have pos: "\<not> double_round (n - 1) \<le> 0"
    by (simp add: double_round_le_0_iff)
  show ?thesis
  proof (cases "expire_in e")
    case None
    have "number_of_integer (- 1) = - 1"
      using number_of_integer_whole [of "- 1"] by simp
    with None pos assms(1-3) show ?thesis
      by (simp add: ATOMIC_DECREMENT_SCRIPT_def GET_def TTL_def SET_def Let_def)
  next
    case (Some t)
    with assms(5) have "number_of_integer (int t) = of_int (int t)"
      by (intro number_of_integer_whole) simp
    with Some pos assms(1-3) show ?thesis
      by (simp add: ATOMIC_DECREMENT_SCRIPT_def GET_def TTL_def SET_def SET_EX_def Let_def
            integer_of_number_of_nat)
  qed
qed


lemma decode_record_text: "cjson_decode json_env (record_text 1) = Some (record_table 1)"
  "cjson_decode json_env (record_text 3) = Some (record_table 3)"
  "cjson_decode json_env (record_text (- 5)) = Some (record_table (- 5))"
  unfolding json_env_def lua_env.simps by code_simp+

lemma encode_record_table: "cjson_encode json_env (record_table 2) = record_text 2"
  unfolding json_env_def lua_env.simps by code_simp











text \<open>
  C5. A non-terminal decrement should keep the record's expiry. The script rewrites the
  record with \<open>SET ... EX ttl\<close> only when \<open>TTL\<close> reported a positive number, so a
  record in its last half second, for which \<open>TTL\<close> reports 0, is rewritten without any
  expiry: here a record with three views left and \<open>TTL\<close> 0 comes back with two views
  and no expiry at all.
\<close>

theorem decrement_at_ttl_zero_removes_expiry:
  "snd (ATOMIC_DECREMENT_SCRIPT json_env ''secret:abc'' (secret_store 3 (Some 0))) =
     secret_store 2 None"
  using decrement_keep [where db = "secret_store 3 (Some 0)" and key = "''secret:abc''"
      and env = json_env and n = 3
      and e = "\<lparr>content = record_text 3, expire_in = Some 0\<rparr>"
      and fs = "[(KStr ''viewsRemaining'', LNumber 3), (KStr ''payload'', LString ''c2VjcmV0'')]"]
    decode_record_text encode_record_table decrement_whole [of 3]
  by (simp add: secret_store_def record_table_def)

section \<open>Verification of the increment-with-limit script\<close>
























section \<open>Verification of the increment result parser\<close>

lemma isLuaScriptError_iff:
  "isLuaScriptError v \<longleftrightarrow> (\<exists>fs reason. v = JSObject fs \<and> map_of fs (str ''error'') = Some (JSString reason))"
  by (auto simp add: isLuaScriptError_def split: jsvalue.splits option.splits)

lemma error_of_object:
  "map_of fs (str ''error'') = Some (JSString reason) \<Longrightarrow> error_of (JSObject fs) = reason"
  by (simp add: error_of_def)

lemma parse_script_error:
  assumes "map_of fs (str ''error'') = Some (JSString reason)"
  shows "parseIncrementResult (JSObject fs) =
      Inl (InvalidResultError (str ''Lua script error: '' @ reason))"
  using assms by (simp add: parseIncrementResult_def isLuaScriptError_def error_of_def)

lemma parse_encoded_script_error:
  assumes "map_of fs (str ''error'') = Some (JSString reason)" and "JSON_parse s = Some (JSObject fs)"
  shows "parseIncrementResult (JSString s) =
      Inl (InvalidResultError (str ''Lua script error: '' @ reason))"
  using assms by (simp add: parseIncrementResult_def isLuaScriptError_def error_of_def)

lemma parse_other_value:
  assumes "v \<noteq> JSNull" and "v \<noteq> JSUndefined" and "\<forall>x. v \<noteq> JSNumber x" and "\<forall>s. v \<noteq> JSString s"
    and "\<not> isLuaScriptError v"
  shows "\<exists>msg. parseIncrementResult v = Inl (InvalidResultError msg)"
  using assms by (cases v) (simp_all add: parseIncrementResult_def)

lemma parse_other_json:
  assumes "JSON_parse s = Some p" and "\<forall>x. p \<noteq> JSNumber x" and "\<not> isLuaScriptError p"
  shows "\<exists>msg. parseIncrementResult (JSString s) = Inl (InvalidResultError msg)"
  using assms by (cases p) (simp_all add: parseIncrementResult_def)

lemma parse_other_text:
  assumes "JSON_parse s = None" and "parseInt10 s = NaN"
  shows "\<exists>msg. parseIncrementResult (JSString s) = Inl (InvalidResultError msg)"
  using assms by (simp add: parseIncrementResult_def isNaN_def)

text \<open>
  The parser stops after the number whatever the fuel, so \<open>5abc\<close> is refused
  because of the characters left over and not for lack of fuel.
\<close>

lemma parse_digit_prefix:
  "parse_value (Suc fuel) (str ''5abc'') = Some (JSNumber (Num 5), str ''abc'')"
  by (simp add: str_def skip_ws_def is_json_ws_def is_dec_digit_def parse_number_def
      parse_fraction_def parse_exponent_def digits_nat_def scale10_def Let_def)

text \<open>
  What \<open>parseIncrementResult\<close> does on each kind of input: it returns null for null
  and undefined; returns the number for a number and for a string that \<open>JSON.parse\<close>
  reads as a number; for a string that is not JSON it returns \<open>parseInt(s, 10)\<close>
  whenever that is not NaN; raises InvalidResultError with the reason for an object
  \<open>{error: reason}\<close>, given as a value or as JSON text; and raises InvalidResultError
  for a value of another type, for JSON text of another value, and for text that is
  neither JSON nor starts with an integer.
\<close>

lemma parseIncrementResult_cases:
  "parseIncrementResult JSNull = Inr None \<and>
   parseIncrementResult JSUndefined = Inr None \<and>
   parseIncrementResult (JSNumber x) = Inr (Some x) \<and>
   (JSON_parse s = Some (JSNumber x) \<longrightarrow> parseIncrementResult (JSString s) = Inr (Some x)) \<and>
   (JSON_parse s = None \<and> parseInt10 s \<noteq> NaN \<longrightarrow>
      parseIncrementResult (JSString s) = Inr (Some (parseInt10 s))) \<and>
   (map_of fs (str ''error'') = Some (JSString reason) \<longrightarrow>
      parseIncrementResult (JSObject fs) =
        Inl (InvalidResultError (str ''Lua script error: '' @ reason)) \<and>
      (JSON_parse s = Some (JSObject fs) \<longrightarrow>
         parseIncrementResult (JSString s) =
           Inl (InvalidResultError (str ''Lua script error: '' @ reason)))) \<and>
   (v \<noteq> JSNull \<and> v \<noteq> JSUndefined \<and> (\<forall>y. v \<noteq> JSNumber y) \<and> (\<forall>t. v \<noteq> JSString t) \<and>
    \<not> isLuaScriptError v \<longrightarrow>
      (\<exists>msg. parseIncrementResult v = Inl (InvalidResultError msg))) \<and>
   (JSON_parse s = Some p \<and> (\<forall>y. p \<noteq> JSNumber y) \<and> \<not> isLuaScriptError p \<longrightarrow>
      (\<exists>msg. parseIncrementResult (JSString s) = Inl (InvalidResultError msg))) \<and>
   (JSON_parse s = None \<and> parseInt10 s = NaN \<longrightarrow>
      (\<exists>msg. parseIncrementResult (JSString s) = Inl (InvalidResultError msg)))"
proof (intro conjI impI)
  show "parseIncrementResult JSNull = Inr None"
    and "parseIncrementResult JSUndefined = Inr None"
    and "parseIncrementResult (JSNumber x) = Inr (Some x)"
    by (simp_all add: parseIncrementResult_def)
next
  assume "JSON_parse s = Some (JSNumber x)"
  then show "parseIncrementResult (JSString s) = Inr (Some x)"
    by (simp add: parseIncrementResult_def)
next
  assume "JSON_parse s = None \<and> parseInt10 s \<noteq> NaN"
  then show "parseIncrementResult (JSString s) = Inr (Some (parseInt10 s))"
    by (simp add: parseIncrementResult_def isNaN_def)
next
  assume "map_of fs (str ''error'') = Some (JSString reason)"
  then show "parseIncrementResult (JSObject fs) =
      Inl (InvalidResultError (str ''Lua script error: '' @ reason))"
    by (rule parse_script_error)
next
  assume "map_of fs (str ''error'') = Some (JSString reason)" and "JSON_parse s = Some (JSObject fs)"
  then show "parseIncrementResult (JSString s) =
      Inl (InvalidResultError (str ''Lua script error: '' @ reason))"
    by (rule parse_encoded_script_error)
next
  assume "v \<noteq> JSNull \<and> v \<noteq> JSUndefined \<and> (\<forall>y. v \<noteq> JSNumber y) \<and> (\<forall>t. v \<noteq> JSString t) \<and>
    \<not> isLuaScriptError v"
  then show "\<exists>msg. parseIncrementResult v = Inl (InvalidResultError msg)"
    by (simp add: parse_other_value)
next
  assume "JSON_parse s = Some p \<and> (\<forall>y. p \<noteq> JSNumber y) \<and> \<not> isLuaScriptError p"
  then show "\<exists>msg. parseIncrementResult (JSString s) = Inl (InvalidResultError msg)"
    by (simp add: parse_other_json)
next
  assume "JSON_parse s = None \<and> parseInt10 s = NaN"
  then show "\<exists>msg. parseIncrementResult (JSString s) = Inl (InvalidResultError msg)"
    by (simp add: parse_other_text)
qed

lemma example_results:
  "JSON_parse (str ''-1'') = Some (JSNumber (Num (- 1)))"
  "JSON_parse (str ''+7'') = None" "parseInt10 (str ''+7'') = Num 7"
  "JSON_parse (str ''{\"error\":\"missing_arguments\"}'') =
     Some (JSObject [(str ''error'', JSString (str ''missing_arguments''))])"
  "JSON_parse (str ''[1]'') = Some (JSArray [JSNumber (Num 1)])"
  "JSON_parse (str ''not a number'') = None" "parseInt10 (str ''not a number'') = NaN"
  "map_of [(str ''error'', JSString (str ''missing_arguments''))] (str ''error'') =
     Some (JSString (str ''missing_arguments''))"
  by code_simp+

lemma parseIncrementResult_examples:
  "parseIncrementResult (JSString (str ''-1'')) = Inr (Some (Num (- 1))) \<and>
   parseIncrementResult (JSString (str ''+7'')) = Inr (Some (Num 7)) \<and>
   parseIncrementResult (JSObject [(str ''error'', JSString (str ''missing_arguments''))]) =
     Inl (InvalidResultError (str ''Lua script error: '' @ str ''missing_arguments'')) \<and>
   parseIncrementResult (JSString (str ''{\"error\":\"missing_arguments\"}'')) =
     Inl (InvalidResultError (str ''Lua script error: '' @ str ''missing_arguments'')) \<and>
   (\<exists>msg. parseIncrementResult (JSBoolean True) = Inl (InvalidResultError msg)) \<and>
   (\<exists>msg. parseIncrementResult (JSString (str ''[1]'')) = Inl (InvalidResultError msg)) \<and>
   (\<exists>msg. parseIncrementResult (JSString (str ''not a number'')) = Inl (InvalidResultError msg))"
proof -
  note c = parseIncrementResult_cases [where fs = "[(str ''error'', JSString (str ''missing_arguments''))]"
      and reason = "str ''missing_arguments''" and v = "JSBoolean True"]
  have "parseIncrementResult (JSString (str ''-1'')) = Inr (Some (Num (- 1)))"
    using c [where s = "str ''-1''" and x = "Num (- 1)" and p = JSNull] example_results by simp
  moreover have "parseIncrementResult (JSString (str ''+7'')) = Inr (Some (Num 7))"
    using c [where s = "str ''+7''" and x = NaN and p = JSNull] example_results by simp
  moreover have "parseIncrementResult (JSObject [(str ''error'', JSString (str ''missing_arguments''))]) =
      Inl (InvalidResultError (str ''Lua script error: '' @ str ''missing_arguments'')) \<and>
    parseIncrementResult (JSString (str ''{\"error\":\"missing_arguments\"}'')) =
      Inl (InvalidResultError (str ''Lua script error: '' @ str ''missing_arguments''))"
    using c [where s = "str ''{\"error\":\"missing_arguments\"}''" and x = NaN and p = JSNull]
      example_results by simp
  moreover have "\<exists>msg. parseIncrementResult (JSBoolean True) = Inl (InvalidResultError msg)"
    using c [where s = "[]" and x = NaN and p = JSNull] by (simp add: isLuaScriptError_def)
  moreover have "\<exists>msg. parseIncrementResult (JSString (str ''[1]'')) = Inl (InvalidResultError msg)"
    using c [where s = "str ''[1]''" and x = NaN and p = "JSArray [JSNumber (Num 1)]"]
      example_results by (simp add: isLuaScriptError_def)
  moreover have "\<exists>msg. parseIncrementResult (JSString (str ''not a number'')) =
      Inl (InvalidResultError msg)"
    using c [where s = "str ''not a number''" and x = NaN and p = JSNull] example_results by simp
  ultimately show ?thesis
    by blast
qed

text \<open>
  C8. Every input other than null, a number, the string form of a number and an error
  shape should raise InvalidResultError. For a string that \<open>JSON.parse\<close> refuses, the
  parser falls back on \<open>parseInt\<close>, which reads a leading integer and ignores what
  follows it: the string \<open>5abc\<close>, which is not the string form of a number, is
  accepted as the number 5, \<open>0x10\<close> as 0 and \<open>1.5.2\<close> as 1.
\<close>

theorem parseIncrementResult_accepts_digit_prefix:
  "JSON_parse (str ''5abc'') = None \<and>
   parseIncrementResult (JSString (str ''5abc'')) = Inr (Some (Num 5)) \<and>
   parseIncrementResult (JSString (str ''0x10'')) = Inr (Some (Num 0)) \<and>
   parseIncrementResult (JSString (str ''1.5.2'')) = Inr (Some (Num 1))"
  by code_simp

section \<open>Verification of the base64url encoder\<close>

lemma concat_chunk_strings: "concat (chunk_strings bs) = fromCharCode bs"
proof (induction bs rule: chunk_strings.induct)
  case (1 bs)
  show ?case
  proof (cases "bs = []")
    case True
    then show ?thesis
      by (simp add: chunk_strings.simps fromCharCode_def)
  next
    case False
    have "concat (chunk_strings bs) =
        fromCharCode (take CHUNK_SIZE bs) @ concat (chunk_strings (drop CHUNK_SIZE bs))"
      using False by (subst chunk_strings.simps) simp
    also have "\<dots> = fromCharCode (take CHUNK_SIZE bs) @ fromCharCode (drop CHUNK_SIZE bs)"
      using 1 False by simp
    also have "\<dots> = fromCharCode bs"
      unfolding fromCharCode_def by (simp flip: map_append)
    finally show ?thesis .
  qed
qed

lemma unat_byte_less: "unat (b :: 8 word) < 256"
  using unsigned_less [of b, where ?'a = nat] by simp

lemma unat_ucast_byte: "unat (ucast (b :: 8 word) :: 16 word) = unat b"
proof -
  have "unat b < 2 ^ 16"
    using unat_byte_less [of b] by simp
  then show ?thesis
    by (simp add: unsigned_ucast_eq take_bit_nat_eq_self)
qed

lemma ucast_byte_le: "(ucast (b :: 8 word) :: 16 word) \<le> 0xFF"
proof -
  show ?thesis
    using unat_byte_less [of b] by (simp add: word_le_nat_alt unat_ucast_byte)
qed

lemma btoa_fromCharCode: "btoa (fromCharCode bs) = Some (btoa_groups (map unat bs))"
proof -
  have "list_all (\<lambda>c. c \<le> 0xFF) (fromCharCode bs)"
    by (simp add: fromCharCode_def list_all_iff ucast_byte_le)
  moreover have "map unat (fromCharCode bs) = map unat bs"
    by (simp add: fromCharCode_def unat_ucast_byte)
  ultimately show ?thesis
    by (simp add: btoa_def)
qed

text \<open>The encoder never raises: a byte is a code unit that \<open>btoa\<close> accepts.\<close>

lemma bufferToBase64Url_eq: "bufferToBase64Url bs = Inr (base64url_of bs)"
  by (simp add: bufferToBase64Url_def concat_chunk_strings btoa_fromCharCode base64url_of_def)

section \<open>Verification of the payload limit\<close>

lemma encrypt_too_large:
  assumes "maxBytes_or_default opts < int (length (TextEncoder_encode p))"
  shows "encrypt sc rnd p key opts =
     Inl (PayloadTooLargeError
           (str ''Plaintext exceeds maximum size: '' @
            number_string (int (length (TextEncoder_encode p))) @ str '' > '' @
            number_string (maxBytes_or_default opts) @ str '' bytes''))"
  using assms by (simp add: encrypt_def Let_def)

lemma encrypt_within_limit:
  assumes "\<not> maxBytes_or_default opts < int (length (TextEncoder_encode p))"
  shows "encrypt sc rnd p key opts =
     (case subtle_encrypt sc rnd key (TextEncoder_encode p) of
        Inl e \<Rightarrow> Inl (CryptoError (str ''Encryption failed: '' @ thrown_message e ''unknown error''))
      | Inr c \<Rightarrow> Inr \<lparr>version = 1, ciphertext = base64url_of c, iv = base64url_of rnd\<rparr>)"
  using assms by (simp add: encrypt_def Let_def bufferToBase64Url_eq split: sum.splits)

text \<open>
  C7. \<open>encrypt\<close> raises PayloadTooLargeError exactly when the UTF-8 length of the
  plaintext exceeds \<open>maxBytes\<close>, which is 1048576 when no option is given; the
  message states the actual size and the limit; a plaintext of exactly \<open>maxBytes\<close>
  bytes is encrypted (when the provider does not throw) and one of \<open>maxBytes + 1\<close>
  bytes is refused.
\<close>

theorem payload_limit:
  "((\<exists>msg. encrypt sc rnd p key opts = Inl (PayloadTooLargeError msg)) \<longleftrightarrow>
      maxBytes_or_default opts < int (length (TextEncoder_encode p))) \<and>
   maxBytes_or_default None = 1048576 \<and>
   maxBytes_or_default (Some \<lparr>maxBytes = None\<rparr>) = 1048576 \<and>
   maxBytes_or_default (Some \<lparr>maxBytes = Some m\<rparr>) = m \<and>
   (maxBytes_or_default opts < int (length (TextEncoder_encode p)) \<longrightarrow>
      encrypt sc rnd p key opts =
        Inl (PayloadTooLargeError
              (str ''Plaintext exceeds maximum size: '' @
               number_string (int (length (TextEncoder_encode p))) @ str '' > '' @
               number_string (maxBytes_or_default opts) @ str '' bytes''))) \<and>
   (int (length (TextEncoder_encode p)) = maxBytes_or_default opts \<and>
    subtle_encrypt sc rnd key (TextEncoder_encode p) = Inr c \<longrightarrow>
      encrypt sc rnd p key opts =
        Inr \<lparr>version = 1, ciphertext = base64url_of c, iv = base64url_of rnd\<rparr>) \<and>
   (int (length (TextEncoder_encode p)) = maxBytes_or_default opts + 1 \<longrightarrow>
      (\<exists>msg. encrypt sc rnd p key opts = Inl (PayloadTooLargeError msg)))"
proof (intro conjI impI iffI)
  assume "\<exists>msg. encrypt sc rnd p key opts = Inl (PayloadTooLargeError msg)"
  then show "maxBytes_or_default opts < int (length (TextEncoder_encode p))"
    by (rule contrapos_pp) (auto simp add: encrypt_within_limit split: sum.splits)
next
  assume "maxBytes_or_default opts < int (length (TextEncoder_encode p))"
  then show "\<exists>msg. encrypt sc rnd p key opts = Inl (PayloadTooLargeError msg)"
    by (simp add: encrypt_too_large)
next
  show "maxBytes_or_default None = 1048576"
    and "maxBytes_or_default (Some \<lparr>maxBytes = None\<rparr>) = 1048576"
    and "maxBytes_or_default (Some \<lparr>maxBytes = Some m\<rparr>) = m"
    by (simp_all add: maxBytes_or_default_def MAX_PLAINTEXT_BYTES_def)
next
  assume "maxBytes_or_default opts < int (length (TextEncoder_encode p))"
  then show "encrypt sc rnd p key opts =
        Inl (PayloadTooLargeError
              (str ''Plaintext exceeds maximum size: '' @
               number_string (int (length (TextEncoder_encode p))) @ str '' > '' @
               number_string (maxBytes_or_default opts) @ str '' bytes''))"
    by (rule encrypt_too_large)
next
  assume "int (length (TextEncoder_encode p)) = maxBytes_or_default opts \<and>
    subtle_encrypt sc rnd key (TextEncoder_encode p) = Inr c"
  then show "encrypt sc rnd p key opts =
      Inr \<lparr>version = 1, ciphertext = base64url_of c, iv = base64url_of rnd\<rparr>"
    by (simp add: encrypt_within_limit)
next
  assume "int (length (TextEncoder_encode p)) = maxBytes_or_default opts + 1"
  then show "\<exists>msg. encrypt sc rnd p key opts = Inl (PayloadTooLargeError msg)"
    by (simp add: encrypt_too_large)
qed

lemma example_payloads:
  "TextEncoder_encode (str ''abc'') = [0x61, 0x62, 0x63]"
  "TextEncoder_encode (str ''abcd'') = [0x61, 0x62, 0x63, 0x64]"
  "number_string 4 = str ''4''" "number_string 3 = str ''3''"
  "subtle_encrypt stand_in_provider example_iv example_key [0x61, 0x62, 0x63] =
     Inr ([0x6F, 0x70, 0x71] @ replicate 16 0x0E)"
  "str ''Plaintext exceeds maximum size: '' @ str ''4'' @ str '' > '' @ str ''3'' @ str '' bytes'' =
     str ''Plaintext exceeds maximum size: 4 > 3 bytes''"
  unfolding stand_in_provider_def subtle_crypto.simps by code_simp+

theorem payload_limit_witness:
  "encrypt stand_in_provider example_iv (str ''abc'') example_key (Some \<lparr>maxBytes = Some 3\<rparr>) =
     Inr \<lparr>version = 1, ciphertext = base64url_of ([0x6F, 0x70, 0x71] @ replicate 16 0x0E),
          iv = base64url_of example_iv\<rparr> \<and>
   encrypt stand_in_provider example_iv (str ''abcd'') example_key (Some \<lparr>maxBytes = Some 3\<rparr>) =
     Inl (PayloadTooLargeError (str ''Plaintext exceeds maximum size: 4 > 3 bytes''))"
  using
    payload_limit [where sc = stand_in_provider and rnd = example_iv and key = example_key
      and p = "str ''abc''" and opts = "Some \<lparr>maxBytes = Some 3\<rparr>" and m = 3
      and c = "[0x6F, 0x70, 0x71] @ replicate 16 0x0E"]
    payload_limit [where sc = stand_in_provider and rnd = example_iv and key = example_key
      and p = "str ''abcd''" and opts = "Some \<lparr>maxBytes = Some 3\<rparr>" and m = 3 and c = "[]"]
    example_payloads
  by simp

section \<open>The base64url codec round trip\<close>

lemma btoa_groups_sextets:
  "btoa_groups vs = map b64_char (sextets vs) @ replicate ((3 - length vs mod 3) mod 3) 0x3D"
proof (induction vs rule: sextets.induct)
  case (1 a b c r)
  have "length (a # b # c # r) mod 3 = length r mod 3"
    by simp
  then show ?case
    using 1 by simp
qed (simp_all add: numeral_2_eq_2)

lemma length_sextets:
  "length (sextets vs) = 4 * (length vs div 3) + (if length vs mod 3 = 0 then 0 else length vs mod 3 + 1)"
proof (induction vs rule: sextets.induct)
  case (1 a b c r)
  have "length (a # b # c # r) mod 3 = length r mod 3" "length (a # b # c # r) div 3 = Suc (length r div 3)"
    by simp_all
  then show ?case
    using 1 by simp
qed simp_all

lemma sextet_arith:
  fixes a b c :: nat
  assumes "b < 256" and "c < 256"
  shows "a div 4 * 4 + ((a mod 4) * 16 + b div 16) div 16 = a"
    and "((a mod 4) * 16 + b div 16) mod 16 * 16 + ((b mod 16) * 4 + c div 64) div 4 = b"
    and "((b mod 16) * 4 + c div 64) mod 4 * 64 + c mod 64 = c"
    and "((a mod 4) * 16 + b div 16) mod 16 * 16 + ((b mod 16) * 4) div 4 = b"
    and "a div 4 * 4 + ((a mod 4) * 16) div 16 = a"
proof -
  have b: "b div 16 < 16" and c: "c div 64 < 4"
    using assms by simp_all
  show "a div 4 * 4 + ((a mod 4) * 16 + b div 16) div 16 = a"
    using b by simp
  show "((a mod 4) * 16 + b div 16) mod 16 * 16 + ((b mod 16) * 4 + c div 64) div 4 = b"
    using b c by simp
  show "((b mod 16) * 4 + c div 64) mod 4 * 64 + c mod 64 = c"
    using c by simp
  show "((a mod 4) * 16 + b div 16) mod 16 * 16 + ((b mod 16) * 4) div 4 = b"
    using b by simp
  show "a div 4 * 4 + ((a mod 4) * 16) div 16 = a"
    by simp
qed

lemma sextet_bounds:
  fixes a b c :: nat
  assumes "a < 256" and "b < 256" and "c < 256"
  shows "a div 4 < 64" and "(a mod 4) * 16 + b div 16 < 64"
    and "(b mod 16) * 4 + c div 64 < 64" and "c mod 64 < 64"
    and "(b mod 16) * 4 < 64" and "(a mod 4) * 16 < 64"
proof -
  have m: "a mod 4 < 4" "b mod 16 < 16" "b div 16 < 16" "c div 64 < 4"
    using assms by simp_all
  show "a div 4 < 64"
    using assms by simp
  show "(a mod 4) * 16 + b div 16 < 64" "(b mod 16) * 4 + c div 64 < 64"
    "(b mod 16) * 4 < 64" "(a mod 4) * 16 < 64"
    using m by linarith+
  show "c mod 64 < 64"
    by simp
qed

lemma sextets_bound:
  "\<forall>v \<in> set vs. v < 256 \<Longrightarrow> \<forall>x \<in> set (sextets vs). x < 64"
proof (induction vs rule: sextets.induct)
  case (1 a b c r)
  then have "a < 256" "b < 256" "c < 256" "\<forall>x \<in> set (sextets r). x < 64"
    by simp_all
  then show ?case
    using sextet_bounds [where a = a and b = b and c = c] by simp
next
  case (2 a b)
  then have "a < 256" "b < 256"
    by simp_all
  then show ?case
    using sextet_bounds [where a = a and b = b and c = b] by simp
next
  case (3 a)
  then show ?case
    using sextet_bounds [where a = a and b = a and c = a] by simp
qed simp

lemma atob_groups_sextets:
  "\<forall>v \<in> set vs. v < 256 \<Longrightarrow> atob_groups (sextets vs) = vs"
proof (induction vs rule: sextets.induct)
  case (1 a b c r)
  then have b: "b < 256" and c: "c < 256" and r: "atob_groups (sextets r) = r"
    by simp_all
  show ?case
    unfolding sextets.simps atob_groups.simps sextet_arith [OF b c] r ..
next
  case (2 a b)
  then have b: "b < 256"
    by simp
  show ?case
    unfolding sextets.simps atob_groups.simps sextet_arith [OF b b] ..
next
  case (3 a)
  then have a: "a < 256"
    by simp
  show ?case
    unfolding sextets.simps atob_groups.simps sextet_arith [OF a a] ..
qed simp

lemma b64_val_b64_char_all: "list_all (\<lambda>v. b64_val (b64_char v) = Some v) [0 ..< 64]"
  by code_simp

lemma b64_val_b64_char: "v < 64 \<Longrightarrow> b64_val (b64_char v) = Some v"
  using b64_val_b64_char_all by (simp add: list_all_iff)

lemma b64_val_excludes:
  assumes "b64_val c = Some v"
  shows "c \<noteq> 0x3D" and "c \<noteq> 0x2D" and "c \<noteq> 0x5F" and "\<not> is_ascii_ws c"
  using assms by (auto simp add: b64_val_def is_ascii_ws_def split: if_splits)

lemma those_map_Some: "those (map Some xs) = Some xs"
  by (induction xs) simp_all

lemma those_map_None: "x \<in> set xs \<Longrightarrow> f x = None \<Longrightarrow> those (map f xs) = None"
  by (induction xs) (auto split: option.splits)

lemma strip_trailing_equals_padding:
  assumes "\<forall>c \<in> set xs. c \<noteq> 0x3D"
  shows "strip_trailing_equals (xs @ replicate k 0x3D) = xs"
proof -
  have "dropWhile (\<lambda>c. c = 0x3D) (rev xs) = rev xs"
    using assms by (cases "rev xs") (auto dest: arg_cong [where f = set])
  then show ?thesis
    by (simp add: strip_trailing_equals_def dropWhile_append)
qed

lemma replace_char_append: "replace_char a b (xs @ ys) = replace_char a b xs @ replace_char a b ys"
  by (simp add: replace_char_def)

lemma replace_char_absent: "a \<notin> set xs \<Longrightarrow> replace_char a b xs = xs"
  by (induction xs) (auto simp add: replace_char_def)

lemma length_replace_char: "length (replace_char a b xs) = length xs"
  by (simp add: replace_char_def)

text \<open>Writing a text of alphabet characters URL-safe and reading it back changes nothing.\<close>

lemma to_standard_of_url:
  assumes "\<forall>c \<in> set xs. c \<noteq> 0x2D \<and> c \<noteq> 0x5F"
  shows "replace_char 0x5F 0x2F (replace_char 0x2D 0x2B
           (replace_char 0x2F 0x5F (replace_char 0x2B 0x2D xs))) = xs"
  using assms by (induction xs) (auto simp add: replace_char_def)

lemma url_keeps_no_equals:
  assumes "\<forall>c \<in> set xs. c \<noteq> 0x3D"
  shows "\<forall>c \<in> set (replace_char 0x2F 0x5F (replace_char 0x2B 0x2D xs)). c \<noteq> 0x3D"
  using assms by (auto simp add: replace_char_def)

lemma strip_padding_clean:
  assumes "\<forall>c \<in> set xs. c \<noteq> 0x3D" and "k \<le> 2" and "length (xs @ replicate k 0x3D) mod 4 = 0"
    and "xs \<noteq> [] \<or> k = 0"
  shows "strip_padding (xs @ replicate k (0x3D :: 16 word)) = xs"
proof -
  consider "k = 0" | "k = 1" | "k = 2"
    using assms(2) by linarith
  then show ?thesis
  proof cases
    case 1
    have "drop (length xs - 2) xs \<noteq> [0x3D, 0x3D]" "drop (length xs - 1) xs \<noteq> [0x3D]"
      using assms(1) by (metis in_set_dropD list.set_intros(1))+
    then show ?thesis
      using 1 by (simp add: strip_padding_def)
  next
    case 2
    then have "xs \<noteq> []"
      using assms(4) by simp
    then obtain ys l where xs: "xs = ys @ [l]"
      by (metis append_butlast_last_id)
    then have "l \<noteq> 0x3D"
      using assms(1) by simp
    then show ?thesis
      using 2 assms(3) unfolding xs by (simp add: strip_padding_def)
  next
    case 3
    then show ?thesis
      using assms(3) by (simp add: strip_padding_def numeral_2_eq_2)
  qed
qed

lemma mod4_cases:
  fixes n :: nat
  shows "n mod 4 = 0 \<or> n mod 4 = 1 \<or> n mod 4 = 2 \<or> n mod 4 = 3"
proof -
  have "n mod 4 < 4"
    by simp
  then show ?thesis
    by linarith
qed

lemma mod4_add:
  fixes n k :: nat
  shows "(n + k) mod 4 = (n mod 4 + k) mod 4"
  by (simp add: mod_add_left_eq)

lemma pad_arith:
  fixes n :: nat
  assumes "n mod 4 \<noteq> 1"
  shows "(4 - n mod 4) mod 4 \<le> 2" and "(n + (4 - n mod 4) mod 4) mod 4 = 0"
    and "n \<noteq> 0 \<or> (4 - n mod 4) mod 4 = 0"
proof -
  have "n mod 4 = 0 \<or> n mod 4 = 2 \<or> n mod 4 = 3"
    using assms mod4_cases [of n] by simp
  then show "(4 - n mod 4) mod 4 \<le> 2" and "(n + (4 - n mod 4) mod 4) mod 4 = 0"
    and "n \<noteq> 0 \<or> (4 - n mod 4) mod 4 = 0"
    unfolding mod4_add [of n] by auto
qed

lemma unpad_arith:
  fixes n k :: nat
  assumes "k \<le> 2" and "(n + k) mod 4 = 0"
  shows "n mod 4 \<noteq> 1"
proof
  assume n: "n mod 4 = 1"
  have "k = 0 \<or> k = 1 \<or> k = 2"
    using assms(1) by linarith
  then show False
    using assms(2) unfolding mod4_add [of n] n by (elim disjE; simp; presburger)
qed

lemma sextets_length_arith:
  "(4 * (q::nat) + (if m mod 3 = 0 then 0 else m mod 3 + 1)) mod 4 \<noteq> 1"
proof -
  have "m mod 3 < 3"
    by simp
  then have "m mod 3 = 0 \<or> m mod 3 = 1 \<or> m mod 3 = 2"
    by linarith
  moreover have "(4 * q + j) mod 4 = j mod 4" for j
    by simp
  ultimately show ?thesis
    by auto
qed

lemma clean_text:
  assumes "map b64_val xs = map Some vs" and "c \<in> set xs"
  shows "\<exists>v. b64_val c = Some v"
proof -
  from assms(2) obtain i where "i < length xs" and "xs ! i = c"
    by (auto simp add: in_set_conv_nth)
  moreover from assms(1) have "length vs = length xs"
    by (metis length_map)
  ultimately have "b64_val c = Some (vs ! i)"
    using assms(1) by (metis nth_map)
  then show ?thesis ..
qed

lemma atob_clean:
  assumes "map b64_val xs = map Some vs" and "k \<le> 2"
    and "length (xs @ replicate k (0x3D :: 16 word)) mod 4 = 0" and "xs \<noteq> [] \<or> k = 0"
  shows "atob (xs @ replicate k 0x3D) = Some (map of_nat (atob_groups vs))"
proof -
  have clean: "\<forall>c \<in> set xs. c \<noteq> 0x3D \<and> \<not> is_ascii_ws c"
    using clean_text [OF assms(1)] b64_val_excludes by blast
  then have "filter (\<lambda>c. \<not> is_ascii_ws c) (xs @ replicate k 0x3D) = xs @ replicate k 0x3D"
    by (auto simp add: is_ascii_ws_def)
  moreover have "strip_padding (xs @ replicate k 0x3D) = xs"
    using clean assms(2-4) by (intro strip_padding_clean) simp_all
  moreover have "length xs mod 4 \<noteq> 1"
    using assms(2,3) unpad_arith [of k "length xs"] by simp
  moreover have "those (map b64_val xs) = Some vs"
    by (simp add: assms(1) those_map_Some)
  ultimately show ?thesis
    by (simp add: atob_def)
qed

lemma add_padding_eq:
  "add_padding xs =
     (if length xs mod 4 = 1 then None
      else Some (xs @ replicate ((4 - length xs mod 4) mod 4) 0x3D))"
proof -
  have "length xs mod 4 = 0 \<or> length xs mod 4 = 1 \<or> length xs mod 4 = 2 \<or> length xs mod 4 = 3"
    by (rule mod4_cases)
  moreover have "str ''=='' = [0x3D, 0x3D]" "str ''='' = [0x3D]"
    by (simp_all add: str_def)
  ultimately show ?thesis
    by (auto simp add: add_padding_def Let_def numeral_2_eq_2)
qed

text \<open>
  A text over the standard alphabet whose length is not 1 modulo 4 decodes to the bytes
  of its six-bit values, and so does the same text written with the URL-safe alphabet.
\<close>

lemma decode_standard_text:
  assumes "map b64_val xs = map Some vs" and "length xs mod 4 \<noteq> 1"
  shows "base64UrlToBuffer xs = Inr (map (\<lambda>n. ucast (of_nat n :: 16 word)) (atob_groups vs))"
proof -
  have "0x2D \<notin> set xs" and "0x5F \<notin> set xs"
    using clean_text [OF assms(1)] b64_val_excludes by blast+
  then have std: "replace_char 0x5F 0x2F (replace_char 0x2D 0x2B xs) = xs"
    by (simp add: replace_char_absent)
  let ?k = "(4 - length xs mod 4) mod 4"
  have k: "?k \<le> 2" "length (xs @ replicate ?k (0x3D :: 16 word)) mod 4 = 0" "xs \<noteq> [] \<or> ?k = 0"
    using pad_arith [OF assms(2)] by simp_all
  have "atob (xs @ replicate ?k 0x3D) = Some (map of_nat (atob_groups vs))"
    using assms(1) k by (rule atob_clean)
  then show ?thesis
    using assms(2) by (simp add: base64UrlToBuffer_def std add_padding_eq)
qed

lemma decode_url_text:
  assumes "map b64_val xs = map Some vs" and "length xs mod 4 \<noteq> 1"
  shows "base64UrlToBuffer (replace_char 0x2F 0x5F (replace_char 0x2B 0x2D xs)) =
     Inr (map (\<lambda>n. ucast (of_nat n :: 16 word)) (atob_groups vs))"
proof -
  have clean: "\<forall>c \<in> set xs. c \<noteq> 0x2D \<and> c \<noteq> 0x5F"
    using clean_text [OF assms(1)] b64_val_excludes by blast
  then have "0x2D \<notin> set xs" and "0x5F \<notin> set xs"
    by blast+
  then have "replace_char 0x5F 0x2F (replace_char 0x2D 0x2B xs) = xs"
    by (simp add: replace_char_absent)
  then have "base64UrlToBuffer (replace_char 0x2F 0x5F (replace_char 0x2B 0x2D xs)) = base64UrlToBuffer xs"
    unfolding base64UrlToBuffer_def to_standard_of_url [OF clean] by simp
  then show ?thesis
    using assms by (simp add: decode_standard_text)
qed

lemma byte_of_code_unit: "ucast (ucast (b :: 8 word) :: 16 word) = b"
  by (simp add: ucast_up_ucast_id is_up)

lemma sextets_text:
  "map b64_val (map b64_char (sextets (map unat (bs :: bytes)))) = map Some (sextets (map unat bs))"
proof -
  have "\<forall>v \<in> set (map unat bs). v < 256"
    using unat_byte_less by auto
  then have "\<forall>x \<in> set (sextets (map unat bs)). x < 64"
    by (rule sextets_bound)
  then show ?thesis
    by (simp add: b64_val_b64_char)
qed

lemma length_sextets_mod: "length (map b64_char (sextets vs)) mod 4 \<noteq> 1"
  unfolding length_map length_sextets by (rule sextets_length_arith)

lemma base64url_of_eq:
  "base64url_of bs =
     replace_char 0x2F 0x5F (replace_char 0x2B 0x2D (map b64_char (sextets (map unat bs))))"
proof -
  have "\<forall>c \<in> set (map b64_char (sextets (map unat bs))). c \<noteq> 0x3D"
    using clean_text [OF sextets_text] b64_val_excludes by blast
  then have "\<forall>c \<in> set (replace_char 0x2F 0x5F (replace_char 0x2B 0x2D
      (map b64_char (sextets (map unat bs))))). c \<noteq> 0x3D"
    by (rule url_keeps_no_equals)
  then show ?thesis
    by (simp add: base64url_of_def btoa_groups_sextets replace_char_append replace_char_absent
        strip_trailing_equals_padding)
qed

text \<open>Decoding the base64url text of a buffer gives the buffer back.\<close>

lemma base64url_round_trip: "base64UrlToBuffer (base64url_of bs) = Inr bs"
proof -
  have "\<forall>v \<in> set (map unat bs). v < 256"
    using unat_byte_less by auto
  then have "atob_groups (sextets (map unat bs)) = map unat bs"
    by (rule atob_groups_sextets)
  then show ?thesis
    unfolding base64url_of_eq
    by (simp add: decode_url_text [OF sextets_text length_sextets_mod] byte_of_code_unit
        comp_def)
qed

section \<open>Verification of the base64url decoder\<close>

lemma base64UrlToBuffer_cases:
  "base64UrlToBuffer s =
     (if length s mod 4 = 1
      then Inl (InvalidBase64Error (str ''Invalid base64 string: incorrect length''))
      else atob_to_buffer (to_standard s @ replicate ((4 - length s mod 4) mod 4) 0x3D))"
  by (simp add: base64UrlToBuffer_def add_padding_eq length_replace_char atob_to_buffer_def
      to_standard_def)

lemma base64UrlToBuffer_error:
  "base64UrlToBuffer s = Inl e \<Longrightarrow> \<exists>msg. e = InvalidBase64Error msg"
  by (auto simp add: base64UrlToBuffer_def split: option.splits)

lemma strip_padding_keeps:
  assumes "c \<in> set d" and "c \<noteq> 0x3D"
  shows "c \<in> set (strip_padding d)"
proof -
  have keep: "c \<in> set (take n d)" if "\<forall>x \<in> set (drop n d). x = 0x3D" for n
  proof -
    have "c \<in> set (take n d) \<union> set (drop n d)"
      using assms(1) by (metis append_take_drop_id set_append)
    then show ?thesis
      using that assms(2) by auto
  qed
  show ?thesis
    using assms(1) keep by (auto simp add: strip_padding_def)
qed

lemma atob_rejects:
  assumes "c \<in> set s" and "b64_val c = None" and "c \<noteq> 0x3D" and "\<not> is_ascii_ws c"
  shows "atob s = None"
proof -
  have "c \<in> set (filter (\<lambda>c. \<not> is_ascii_ws c) s)"
    using assms(1,4) by simp
  then have "c \<in> set (strip_padding (filter (\<lambda>c. \<not> is_ascii_ws c) s))"
    using assms(3) by (rule strip_padding_keeps)
  then have "those (map b64_val (strip_padding (filter (\<lambda>c. \<not> is_ascii_ws c) s))) = None"
    using assms(2) by (rule those_map_None)
  then show ?thesis
    by (simp add: atob_def Let_def)
qed

lemma base64UrlToBuffer_rejects:
  assumes "c \<in> set s" and "b64_val c = None" and "c \<noteq> 0x2D" and "c \<noteq> 0x5F"
    and "c \<noteq> 0x3D" and "\<not> is_ascii_ws c"
  shows "\<exists>msg. base64UrlToBuffer s = Inl (InvalidBase64Error msg)"
proof -
  have "c \<in> set (to_standard s)"
    using assms(1,3,4) by (force simp add: to_standard_def replace_char_def)
  then have "atob (to_standard s @ pad) = None" for pad
    using assms(2,5,6) by (intro atob_rejects [of c]) simp_all
  then show ?thesis
    by (simp add: base64UrlToBuffer_cases atob_to_buffer_def)
qed

text \<open>
  C6, as the claim states it, fails: a string with a character outside both alphabets
  should be refused, and \<open>atob\<close> skips ASCII white space, so the four characters
  \<open>AA A\<close> decode to two zero bytes.
\<close>

theorem base64UrlToBuffer_accepts_white_space:
  "0x20 \<in> set (str ''AA A'') \<and> b64_val 0x20 = None \<and>
   base64UrlToBuffer (str ''AA A'') = Inr [0, 0]"
  by code_simp

text \<open>
  C6, amended. The decoder restores the padding from the length modulo 4 (2: two
  \<open>=\<close>, 3: one, 0: none) before \<open>atob\<close>; raises InvalidBase64Error for every string
  whose length is 1 modulo 4; raises InvalidBase64Error for every string with a
  character that is neither in the standard or URL-safe alphabet, nor \<open>=\<close>, nor ASCII
  white space; and reads a text over the standard alphabet and the same text in the
  URL-safe alphabet as the same bytes.
\<close>

theorem base64UrlToBuffer_decoding:
  "(length s mod 4 = 2 \<longrightarrow> base64UrlToBuffer s = atob_to_buffer (to_standard s @ str ''=='')) \<and>
   (length s mod 4 = 3 \<longrightarrow> base64UrlToBuffer s = atob_to_buffer (to_standard s @ str ''='')) \<and>
   (length s mod 4 = 0 \<longrightarrow> base64UrlToBuffer s = atob_to_buffer (to_standard s)) \<and>
   (length s mod 4 = 1 \<longrightarrow>
      base64UrlToBuffer s =
        Inl (InvalidBase64Error (str ''Invalid base64 string: incorrect length''))) \<and>
   (c \<in> set s \<and> b64_val c = None \<and> c \<noteq> 0x2D \<and> c \<noteq> 0x5F \<and> c \<noteq> 0x3D \<and>
    \<not> is_ascii_ws c \<longrightarrow>
      (\<exists>msg. base64UrlToBuffer s = Inl (InvalidBase64Error msg))) \<and>
   (map b64_val xs = map Some vs \<and> length xs mod 4 \<noteq> 1 \<longrightarrow>
      base64UrlToBuffer xs = Inr (map (\<lambda>n. ucast (of_nat n :: 16 word)) (atob_groups vs)) \<and>
      base64UrlToBuffer (to_url_safe xs) =
        Inr (map (\<lambda>n. ucast (of_nat n :: 16 word)) (atob_groups vs)))"
proof (intro conjI impI)
  assume "length s mod 4 = 2"
  then show "base64UrlToBuffer s = atob_to_buffer (to_standard s @ str ''=='')"
    by (simp add: base64UrlToBuffer_def add_padding_def length_replace_char atob_to_buffer_def
        to_standard_def)
next
  assume "length s mod 4 = 3"
  then show "base64UrlToBuffer s = atob_to_buffer (to_standard s @ str ''='')"
    by (simp add: base64UrlToBuffer_def add_padding_def length_replace_char atob_to_buffer_def
        to_standard_def)
next
  assume "length s mod 4 = 0"
  then show "base64UrlToBuffer s = atob_to_buffer (to_standard s)"
    by (simp add: base64UrlToBuffer_def add_padding_def length_replace_char atob_to_buffer_def
        to_standard_def)
next
  assume "length s mod 4 = 1"
  then show "base64UrlToBuffer s =
      Inl (InvalidBase64Error (str ''Invalid base64 string: incorrect length''))"
    by (simp add: base64UrlToBuffer_cases)
next
  assume "c \<in> set s \<and> b64_val c = None \<and> c \<noteq> 0x2D \<and> c \<noteq> 0x5F \<and> c \<noteq> 0x3D \<and>
    \<not> is_ascii_ws c"
  then show "\<exists>msg. base64UrlToBuffer s = Inl (InvalidBase64Error msg)"
    using base64UrlToBuffer_rejects [of c s] by blast
next
  assume "map b64_val xs = map Some vs \<and> length xs mod 4 \<noteq> 1"
  then show "base64UrlToBuffer xs = Inr (map (\<lambda>n. ucast (of_nat n :: 16 word)) (atob_groups vs))"
    and "base64UrlToBuffer (to_url_safe xs) =
      Inr (map (\<lambda>n. ucast (of_nat n :: 16 word)) (atob_groups vs))"
    by (simp_all add: decode_standard_text decode_url_text to_url_safe_def)
qed

lemma example_texts:
  "to_standard (str ''-_'') @ str ''=='' = str ''+/==''" "atob_to_buffer (str ''+/=='') = Inr [0xFB]"
  "to_standard (str ''-__'') @ str ''='' = str ''+//=''" "atob_to_buffer (str ''+//='') = Inr [0xFB, 0xFF]"
  "to_standard (str ''-__-'') = str ''+//+''" "atob_to_buffer (str ''+//+'') = Inr [0xFB, 0xFF, 0xFE]"
  "map b64_val (str ''+//+'') = map Some [62, 63, 63, 62]" "to_url_safe (str ''+//+'') = str ''-__-''"
  "map (\<lambda>n. ucast (of_nat n :: 16 word)) (atob_groups [62, 63, 63, 62]) = [0xFB, 0xFF, 0xFE :: 8 word]"
  "b64_val 0x21 = None" "0x21 \<in> set (str ''invalid!@#$%'')" "\<not> is_ascii_ws 0x21"
  by code_simp+

theorem base64UrlToBuffer_decoding_witness:
  "base64UrlToBuffer (str ''-_'') = Inr [0xFB] \<and>
   base64UrlToBuffer (str ''-__'') = Inr [0xFB, 0xFF] \<and>
   base64UrlToBuffer (str ''-__-'') = Inr [0xFB, 0xFF, 0xFE] \<and>
   base64UrlToBuffer (str ''+//+'') = Inr [0xFB, 0xFF, 0xFE] \<and>
   base64UrlToBuffer (str ''AAAAA'') =
     Inl (InvalidBase64Error (str ''Invalid base64 string: incorrect length'')) \<and>
   (\<exists>msg. base64UrlToBuffer (str ''invalid!@#$%'') = Inl (InvalidBase64Error msg))"
proof -
  note d = base64UrlToBuffer_decoding [where c = "0x21" and xs = "str ''+//+''"
      and vs = "[62, 63, 63, 62]"]
  have "base64UrlToBuffer (str ''-_'') = Inr [0xFB]"
    using d [where s = "str ''-_''"] example_texts by (simp add: str_def)
  moreover have "base64UrlToBuffer (str ''-__'') = Inr [0xFB, 0xFF]"
    using d [where s = "str ''-__''"] example_texts by (simp add: str_def)
  moreover have "base64UrlToBuffer (str ''-__-'') = Inr [0xFB, 0xFF, 0xFE] \<and>
      base64UrlToBuffer (str ''+//+'') = Inr [0xFB, 0xFF, 0xFE]"
    using d [where s = "str ''-__-''"] example_texts by (simp add: str_def)
  moreover have "base64UrlToBuffer (str ''AAAAA'') =
      Inl (InvalidBase64Error (str ''Invalid base64 string: incorrect length''))"
    using d [where s = "str ''AAAAA''"] by (simp add: str_def)
  moreover have "\<exists>msg. base64UrlToBuffer (str ''invalid!@#$%'') = Inl (InvalidBase64Error msg)"
    using d [where s = "str ''invalid!@#$%''"] example_texts by simp
  ultimately show ?thesis
    by blast
qed

section \<open>Verification of key import\<close>

lemma base64ToKey_not_string:
  "\<forall>s. v \<noteq> JSString s \<Longrightarrow>
     base64ToKey v = Inl (InvalidKeyError (str ''Invalid key: expected non-empty string''))"
  by (cases v) (simp_all add: base64ToKey_def)

lemma base64ToKey_empty:
  "base64ToKey (JSString []) = Inl (InvalidKeyError (str ''Invalid key: expected non-empty string''))"
  by (simp add: base64ToKey_def)

lemma KEY_BYTES_32: "KEY_BYTES = 32"
  by (simp add: KEY_BYTES_def KEY_LENGTH_def)

lemma base64ToKey_string:
  "s \<noteq> [] \<Longrightarrow>
   base64ToKey (JSString s) =
     (case base64UrlToBuffer s of
        Inl e \<Rightarrow> Inl e
      | Inr keyArray \<Rightarrow>
          if length keyArray \<noteq> 32 then
            Inl (InvalidKeyError
                  (str ''Invalid key length: expected '' @ number_string 32 @
                   str '' bytes, got '' @ number_string (int (length keyArray))))
          else Inr (CryptoKey keyArray))"
  unfolding base64ToKey_def KEY_BYTES_32 by (simp split: sum.splits)

lemma base64UrlToBuffer_empty: "base64UrlToBuffer [] = Inr []"
  by code_simp

text \<open>
  C9. \<open>base64ToKey\<close> raises InvalidKeyError exactly when its argument is not a
  string, is the empty string, or decodes to a number of bytes other than 32 (so for
  16 and for 64 bytes, with the message naming both lengths); it raises
  InvalidBase64Error exactly when the argument is a non-empty string that the decoder
  refuses; in the remaining case the result is the key of the 32 decoded bytes.
\<close>

theorem base64ToKey_errors:
  "((\<exists>msg. base64ToKey v = Inl (InvalidKeyError msg)) \<longleftrightarrow>
      (\<forall>s. v \<noteq> JSString s) \<or> v = JSString [] \<or>
      (\<exists>s keyArray. v = JSString s \<and> base64UrlToBuffer s = Inr keyArray \<and> length keyArray \<noteq> 32)) \<and>
   ((\<exists>msg. base64ToKey v = Inl (InvalidBase64Error msg)) \<longleftrightarrow>
      (\<exists>s msg. v = JSString s \<and> s \<noteq> [] \<and> base64UrlToBuffer s = Inl (InvalidBase64Error msg))) \<and>
   (t \<noteq> [] \<and> base64UrlToBuffer t = Inr bs \<and> (length bs = 16 \<or> length bs = 64) \<longrightarrow>
      base64ToKey (JSString t) =
        Inl (InvalidKeyError
              (str ''Invalid key length: expected '' @ number_string 32 @
               str '' bytes, got '' @ number_string (int (length bs))))) \<and>
   (base64UrlToBuffer t = Inr bs \<and> length bs = 32 \<longrightarrow> base64ToKey (JSString t) = Inr (CryptoKey bs))"
proof (intro conjI)
  show "(\<exists>msg. base64ToKey v = Inl (InvalidKeyError msg)) \<longleftrightarrow>
      (\<forall>s. v \<noteq> JSString s) \<or> v = JSString [] \<or>
      (\<exists>s keyArray. v = JSString s \<and> base64UrlToBuffer s = Inr keyArray \<and> length keyArray \<noteq> 32)"
  proof (cases "\<exists>s. v = JSString s")
    case False
    then show ?thesis
      by (simp add: base64ToKey_not_string)
  next
    case True
    then obtain s where v: "v = JSString s" ..
    show ?thesis
    proof (cases "s = []")
      case True
      then show ?thesis
        by (simp add: v base64ToKey_empty)
    next
      case False
      then show ?thesis
        using base64UrlToBuffer_error [of s]
        by (auto simp add: v base64ToKey_string split: sum.splits)
    qed
  qed
next
  show "(\<exists>msg. base64ToKey v = Inl (InvalidBase64Error msg)) \<longleftrightarrow>
      (\<exists>s msg. v = JSString s \<and> s \<noteq> [] \<and> base64UrlToBuffer s = Inl (InvalidBase64Error msg))"
  proof (cases "\<exists>s. v = JSString s")
    case False
    then show ?thesis
      by (simp add: base64ToKey_not_string)
  next
    case True
    then obtain s where v: "v = JSString s" ..
    show ?thesis
    proof (cases "s = []")
      case True
      then show ?thesis
        by (simp add: v base64ToKey_empty)
    next
      case False
      then show ?thesis
        by (auto simp add: v base64ToKey_string split: sum.splits)
    qed
  qed
next
  show "t \<noteq> [] \<and> base64UrlToBuffer t = Inr bs \<and> (length bs = 16 \<or> length bs = 64) \<longrightarrow>
      base64ToKey (JSString t) =
        Inl (InvalidKeyError
              (str ''Invalid key length: expected '' @ number_string 32 @
               str '' bytes, got '' @ number_string (int (length bs))))"
    by (auto simp add: base64ToKey_string)
next
  show "base64UrlToBuffer t = Inr bs \<and> length bs = 32 \<longrightarrow> base64ToKey (JSString t) = Inr (CryptoKey bs)"
    using base64UrlToBuffer_empty by (cases "t = []") (auto simp add: base64ToKey_string)
qed

lemma example_keys:
  "base64UrlToBuffer (replicate 22 0x41) = Inr (replicate 16 0)"
  "base64UrlToBuffer (replicate 86 0x41) = Inr (replicate 64 0)"
  "base64UrlToBuffer (replicate 43 0x41) = Inr (replicate 32 0)"
  "base64UrlToBuffer (str ''AAAAA'') =
     Inl (InvalidBase64Error (str ''Invalid base64 string: incorrect length''))"
  "str ''Invalid key length: expected '' @ number_string 32 @ str '' bytes, got '' @ number_string 16 =
     str ''Invalid key length: expected 32 bytes, got 16''"
  "str ''Invalid key length: expected '' @ number_string 32 @ str '' bytes, got '' @ number_string 64 =
     str ''Invalid key length: expected 32 bytes, got 64''"
  by code_simp+

theorem base64ToKey_errors_witness:
  "(\<exists>msg. base64ToKey JSNull = Inl (InvalidKeyError msg)) \<and>
   (\<exists>msg. base64ToKey (JSString []) = Inl (InvalidKeyError msg)) \<and>
   base64ToKey (JSString (replicate 22 0x41)) =
     Inl (InvalidKeyError (str ''Invalid key length: expected 32 bytes, got 16'')) \<and>
   base64ToKey (JSString (replicate 86 0x41)) =
     Inl (InvalidKeyError (str ''Invalid key length: expected 32 bytes, got 64'')) \<and>
   (\<exists>msg. base64ToKey (JSString (str ''AAAAA'')) = Inl (InvalidBase64Error msg)) \<and>
   base64ToKey (JSString (replicate 43 0x41)) = Inr (CryptoKey (replicate 32 0))"
proof -
  note k = base64ToKey_errors
  have "\<exists>msg. base64ToKey JSNull = Inl (InvalidKeyError msg)"
    using k [where v = JSNull and t = "[]" and bs = "[]", THEN conjunct1] by simp
  moreover have "\<exists>msg. base64ToKey (JSString []) = Inl (InvalidKeyError msg)"
    using k [where v = "JSString []" and t = "[]" and bs = "[]", THEN conjunct1] by simp
  moreover have "base64ToKey (JSString (replicate 22 0x41)) =
      Inl (InvalidKeyError (str ''Invalid key length: expected 32 bytes, got 16''))"
    using k [where v = JSNull and t = "replicate 22 0x41" and bs = "replicate 16 0"]
      example_keys by simp
  moreover have "base64ToKey (JSString (replicate 86 0x41)) =
      Inl (InvalidKeyError (str ''Invalid key length: expected 32 bytes, got 64''))"
    using k [where v = JSNull and t = "replicate 86 0x41" and bs = "replicate 64 0"]
      example_keys by simp
  moreover have "\<exists>msg. base64ToKey (JSString (str ''AAAAA'')) = Inl (InvalidBase64Error msg)"
    using k [where v = "JSString (str ''AAAAA'')" and t = "[]" and bs = "[]",
        THEN conjunct2, THEN conjunct1] example_keys
    by (simp add: str_def)
  moreover have "base64ToKey (JSString (replicate 43 0x41)) = Inr (CryptoKey (replicate 32 0))"
    using k [where v = JSNull and t = "replicate 43 0x41" and bs = "replicate 32 0"]
      example_keys by simp
  ultimately show ?thesis
    by blast
qed

section \<open>\<open>TextDecoder\<close> undoes \<open>TextEncoder\<close>\<close>

lemma unat_byte: "n < 256 \<Longrightarrow> unat (of_nat n :: 8 word) = n"
  by (simp add: unat_of_nat)

lemma mod_offset:
  fixes n m k :: nat
  shows "n < m \<Longrightarrow> (k * m + n) mod m = n"
  by simp

text \<open>The decoder steps, one for each kind of byte.\<close>

lemma decode_ascii:
  "n \<le> 0x7F \<Longrightarrow> utf8_decode cp seen 0 lower upper (of_nat n # bs) = n # utf8_decode 0 0 0 0x80 0xBF bs"
  by (simp add: utf8_decode.simps unat_byte)

lemma decode_continuation:
  assumes "needed \<noteq> 0" and "lower \<le> 0x80 + n" and "0x80 + n \<le> upper" and "n < 64"
  shows "utf8_decode cp seen needed lower upper (of_nat (0x80 + n) # bs) =
     (if seen + 1 \<noteq> needed then utf8_decode (cp * 64 + n) (seen + 1) needed 0x80 0xBF bs
      else (cp * 64 + n) # utf8_decode 0 0 0 0x80 0xBF bs)"
proof -
  have "unat (of_nat (0x80 + n) :: 8 word) = 0x80 + n"
    using assms(4) by (intro unat_byte) simp
  moreover have "(0x80 + n) mod 64 = n"
    using assms(4) mod_offset [of n 64 2] by simp
  ultimately show ?thesis
    using assms(1-3) by (subst utf8_decode.simps) simp
qed

lemma decode_lead2:
  assumes "2 \<le> n" and "n < 32"
  shows "utf8_decode cp seen 0 lower upper (of_nat (0xC0 + n) # bs) = utf8_decode n 0 1 0x80 0xBF bs"
proof -
  have "unat (of_nat (0xC0 + n) :: 8 word) = 0xC0 + n"
    using assms by (intro unat_byte) simp
  moreover have "(0xC0 + n) mod 32 = n"
    using assms mod_offset [of n 32 6] by simp
  ultimately show ?thesis
    using assms by (subst utf8_decode.simps) simp
qed

lemma decode_lead3:
  assumes "n < 16"
  shows "utf8_decode cp seen 0 lower upper (of_nat (0xE0 + n) # bs) =
     utf8_decode n 0 2 (if n = 0 then 0xA0 else 0x80) (if n = 13 then 0x9F else 0xBF) bs"
proof -
  have "unat (of_nat (0xE0 + n) :: 8 word) = 0xE0 + n"
    using assms by (intro unat_byte) simp
  moreover have "(0xE0 + n) mod 16 = n"
    using assms mod_offset [of n 16 14] by simp
  ultimately show ?thesis
    using assms by (subst utf8_decode.simps) simp
qed

lemma decode_lead4:
  assumes "n \<le> 4"
  shows "utf8_decode cp seen 0 lower upper (of_nat (0xF0 + n) # bs) =
     utf8_decode n 0 3 (if n = 0 then 0x90 else 0x80) (if n = 4 then 0x8F else 0xBF) bs"
proof -
  have "unat (of_nat (0xF0 + n) :: 8 word) = 0xF0 + n"
    using assms by (intro unat_byte) simp
  moreover have "(0xF0 + n) mod 8 = n"
    using assms mod_offset [of n 8 30] by simp
  ultimately show ?thesis
    using assms by (subst utf8_decode.simps) simp
qed

lemma div64_div64: "(cp :: nat) div 64 div 64 = cp div 4096"
  by (simp add: div_mult2_eq [symmetric])

lemma div4096_div64: "(cp :: nat) div 4096 div 64 = cp div 262144"
  by (simp add: div_mult2_eq [symmetric])

lemma rebuild3: "(cp div 4096 * 64 + cp div 64 mod 64) * 64 + cp mod 64 = (cp :: nat)"
proof -
  have "cp div 4096 * 64 + cp div 64 mod 64 = cp div 64"
    using div_mult_mod_eq [of "cp div 64" 64] by (simp add: div64_div64)
  then show ?thesis
    by simp
qed

lemma rebuild4:
  "((cp div 262144 * 64 + cp div 4096 mod 64) * 64 + cp div 64 mod 64) * 64 + cp mod 64 = (cp :: nat)"
proof -
  have "cp div 262144 * 64 + cp div 4096 mod 64 = cp div 4096"
    using div_mult_mod_eq [of "cp div 4096" 64] by (simp add: div4096_div64)
  then show ?thesis
    using rebuild3 [of cp] by simp
qed

lemma range2:
  fixes cp :: nat
  assumes "0x80 \<le> cp" and "cp < 0x800"
  shows "2 \<le> cp div 64" and "cp div 64 < 32"
  using assms by arith+

lemma range3:
  fixes cp :: nat
  assumes "0x800 \<le> cp" and "cp < 0x10000" and "\<not> (0xD800 \<le> cp \<and> cp \<le> 0xDFFF)"
  shows "cp div 4096 < 16"
    and "(if cp div 4096 = 0 then 0xA0 else 0x80) \<le> 0x80 + cp div 64 mod 64"
    and "0x80 + cp div 64 mod 64 \<le> (if cp div 4096 = 13 then 0x9F else 0xBF)"
proof -
  show "cp div 4096 < 16"
    using assms by arith
  have m: "cp div 64 mod 64 < 64"
    by simp
  have e: "cp div 64 = cp div 4096 * 64 + cp div 64 mod 64"
    using div_mult_mod_eq [of "cp div 64" 64] by (simp add: div64_div64)
  have lo: "32 \<le> cp div 64" and hi: "cp div 4096 = 13 \<Longrightarrow> cp div 64 < 864"
    using assms by arith+
  show "(if cp div 4096 = 0 then 0xA0 else 0x80) \<le> 0x80 + cp div 64 mod 64"
    using lo e by auto
  show "0x80 + cp div 64 mod 64 \<le> (if cp div 4096 = 13 then 0x9F else 0xBF)"
    using hi e m by auto
qed

lemma range4:
  fixes cp :: nat
  assumes "0x10000 \<le> cp" and "cp < 0x110000"
  shows "cp div 262144 \<le> 4"
    and "(if cp div 262144 = 0 then 0x90 else 0x80) \<le> 0x80 + cp div 4096 mod 64"
    and "0x80 + cp div 4096 mod 64 \<le> (if cp div 262144 = 4 then 0x8F else 0xBF)"
proof -
  show "cp div 262144 \<le> 4"
    using assms by arith
  have m: "cp div 4096 mod 64 < 64"
    by simp
  have e: "cp div 4096 = cp div 262144 * 64 + cp div 4096 mod 64"
    using div_mult_mod_eq [of "cp div 4096" 64] by (simp add: div4096_div64)
  have lo: "16 \<le> cp div 4096" and hi: "cp div 4096 < 272"
    using assms by arith+
  show "(if cp div 262144 = 0 then 0x90 else 0x80) \<le> 0x80 + cp div 4096 mod 64"
    using lo e by auto
  show "0x80 + cp div 4096 mod 64 \<le> (if cp div 262144 = 4 then 0x8F else 0xBF)"
    using hi e m by auto
qed

lemma encode_cases:
  "cp < 0x80 \<Longrightarrow> utf8_encode_scalar cp = [of_nat cp]"
  "0x80 \<le> cp \<Longrightarrow> cp < 0x800 \<Longrightarrow>
     utf8_encode_scalar cp = [of_nat (0xC0 + cp div 64), of_nat (0x80 + cp mod 64)]"
  "0x800 \<le> cp \<Longrightarrow> cp < 0x10000 \<Longrightarrow>
     utf8_encode_scalar cp =
       [of_nat (0xE0 + cp div 4096), of_nat (0x80 + cp div 64 mod 64), of_nat (0x80 + cp mod 64)]"
  "0x10000 \<le> cp \<Longrightarrow>
     utf8_encode_scalar cp =
       [of_nat (0xF0 + cp div 262144), of_nat (0x80 + cp div 4096 mod 64),
        of_nat (0x80 + cp div 64 mod 64), of_nat (0x80 + cp mod 64)]"
  by (simp_all add: utf8_encode_scalar_def)

lemma decode_last_continuation:
  assumes "n < 64" and "Suc seen = needed"
  shows "utf8_decode cp seen needed 0x80 0xBF (of_nat (0x80 + n) # bs) =
     (cp * 64 + n) # utf8_decode 0 0 0 0x80 0xBF bs"
  using assms by (subst decode_continuation) auto

lemma decode_inner_continuation:
  assumes "n < 64" and "Suc seen \<noteq> needed" and "needed \<noteq> 0"
    and "lower \<le> 0x80 + n" and "0x80 + n \<le> upper"
  shows "utf8_decode cp seen needed lower upper (of_nat (0x80 + n) # bs) =
     utf8_decode (cp * 64 + n) (Suc seen) needed 0x80 0xBF bs"
  using assms by (subst decode_continuation) auto

lemma decode_scalar:
  assumes "valid_scalar cp"
  shows "utf8_decode 0 0 0 0x80 0xBF (utf8_encode_scalar cp @ rest) =
     cp # utf8_decode 0 0 0 0x80 0xBF rest"
proof -
  have m: "cp mod 64 < 64" "cp div 64 mod 64 < 64" "cp div 4096 mod 64 < 64"
    by simp_all
  consider "cp < 0x80" | "0x80 \<le> cp" "cp < 0x800" | "0x800 \<le> cp" "cp < 0x10000"
    | "0x10000 \<le> cp"
    by linarith
  then show ?thesis
  proof cases
    case 1
    then show ?thesis
      by (simp only: encode_cases append_Cons append_Nil) (simp add: decode_ascii)
  next
    case 2
    have "utf8_decode 0 0 0 0x80 0xBF (utf8_encode_scalar cp @ rest) =
        utf8_decode (cp div 64) 0 1 0x80 0xBF (of_nat (0x80 + cp mod 64) # rest)"
      by (simp only: encode_cases(2) [OF 2] append_Cons append_Nil decode_lead2 [OF range2 [OF 2]])
    also have "\<dots> = (cp div 64 * 64 + cp mod 64) # utf8_decode 0 0 0 0x80 0xBF rest"
      by (rule decode_last_continuation) simp_all
    finally show ?thesis
      by simp
  next
    case 3
    have v: "\<not> (0xD800 \<le> cp \<and> cp \<le> 0xDFFF)"
      using assms by (simp add: valid_scalar_def)
    note r = range3 [OF 3 v]
    have "utf8_decode 0 0 0 0x80 0xBF (utf8_encode_scalar cp @ rest) =
        utf8_decode (cp div 4096) 0 2 (if cp div 4096 = 0 then 0xA0 else 0x80)
          (if cp div 4096 = 13 then 0x9F else 0xBF)
          (of_nat (0x80 + cp div 64 mod 64) # of_nat (0x80 + cp mod 64) # rest)"
      by (simp only: encode_cases(3) [OF 3] append_Cons append_Nil decode_lead3 [OF r(1)])
    also have "\<dots> = utf8_decode (cp div 4096 * 64 + cp div 64 mod 64) (Suc 0) 2 0x80 0xBF
          (of_nat (0x80 + cp mod 64) # rest)"
      using r(2,3) by (intro decode_inner_continuation) simp_all
    also have "\<dots> = ((cp div 4096 * 64 + cp div 64 mod 64) * 64 + cp mod 64) #
          utf8_decode 0 0 0 0x80 0xBF rest"
      by (rule decode_last_continuation) simp_all
    finally show ?thesis
      by (simp only: rebuild3)
  next
    case 4
    have lt: "cp < 0x110000"
      using assms by (simp add: valid_scalar_def)
    note r = range4 [OF 4 lt]
    have "utf8_decode 0 0 0 0x80 0xBF (utf8_encode_scalar cp @ rest) =
        utf8_decode (cp div 262144) 0 3 (if cp div 262144 = 0 then 0x90 else 0x80)
          (if cp div 262144 = 4 then 0x8F else 0xBF)
          (of_nat (0x80 + cp div 4096 mod 64) # of_nat (0x80 + cp div 64 mod 64) #
           of_nat (0x80 + cp mod 64) # rest)"
      by (simp only: encode_cases(4) [OF 4] append_Cons append_Nil decode_lead4 [OF r(1)])
    also have "\<dots> = utf8_decode (cp div 262144 * 64 + cp div 4096 mod 64) (Suc 0) 3 0x80 0xBF
          (of_nat (0x80 + cp div 64 mod 64) # of_nat (0x80 + cp mod 64) # rest)"
      using r(2,3) by (intro decode_inner_continuation) simp_all
    also have "\<dots> = utf8_decode ((cp div 262144 * 64 + cp div 4096 mod 64) * 64 + cp div 64 mod 64)
          (Suc (Suc 0)) 3 0x80 0xBF (of_nat (0x80 + cp mod 64) # rest)"
      by (intro decode_inner_continuation) simp_all
    also have "\<dots> = (((cp div 262144 * 64 + cp div 4096 mod 64) * 64 + cp div 64 mod 64) * 64 +
          cp mod 64) # utf8_decode 0 0 0 0x80 0xBF rest"
      by (rule decode_last_continuation) simp_all
    finally show ?thesis
      by (simp only: rebuild4)
  qed
qed

lemma decode_scalars:
  assumes "\<forall>cp \<in> set cps. valid_scalar cp"
  shows "utf8_decode 0 0 0 0x80 0xBF (concat (map utf8_encode_scalar cps)) = cps"
  using assms by (induction cps) (simp_all add: utf8_decode.simps(1) decode_scalar)



lemma surrogate_unat:
  "is_high_surrogate c \<longleftrightarrow> 0xD800 \<le> unat c \<and> unat c \<le> 0xDBFF"
  "is_low_surrogate c \<longleftrightarrow> 0xDC00 \<le> unat c \<and> unat c \<le> 0xDFFF"
  by (simp_all add: is_high_surrogate_def is_low_surrogate_def word_le_nat_alt)

lemma unat_code_unit_less: "unat (c :: 16 word) < 65536"
  using unsigned_less [of c, where ?'a = nat] by simp

lemma pair_scalar_valid:
  fixes h l :: nat
  assumes "0xD800 \<le> h" "h \<le> 0xDBFF" "0xDC00 \<le> l" "l \<le> 0xDFFF"
  shows "valid_scalar (0x10000 + (h - 0xD800) * 0x400 + (l - 0xDC00))"
  using assms by (simp add: valid_scalar_def)

lemma scalar_values_valid: "\<forall>cp \<in> set (scalar_values s). valid_scalar cp"
proof (induction s rule: scalar_values.induct)
  case 1
  then show ?case by simp
next
  case (2 c)
  show ?case
    using unat_code_unit_less [of c] by (simp add: surrogate_unat valid_scalar_def) linarith
next
  case (3 c d r)
  have "valid_scalar 0xFFFD"
    by (simp add: valid_scalar_def)
  moreover have "valid_scalar (unat c)" if "\<not> is_high_surrogate c" "\<not> is_low_surrogate c"
    using that unat_code_unit_less [of c] by (simp add: surrogate_unat valid_scalar_def) linarith
  moreover have "valid_scalar (0x10000 + (unat c - 0xD800) * 0x400 + (unat d - 0xDC00))"
    if "is_high_surrogate c" "is_low_surrogate d"
    using that by (intro pair_scalar_valid) (simp_all add: surrogate_unat)
  ultimately show ?case
    using 3 by auto
qed

text \<open>The decoder gives back the scalar values of the encoded string.\<close>

lemma decode_encoded: "utf8_decode 0 0 0 0x80 0xBF (TextEncoder_encode s) = scalar_values s"
  by (simp add: TextEncoder_encode_def decode_scalars scalar_values_valid)

lemma code_units_bmp: "code_units (unat (c :: 16 word)) = [c]"
  using unat_code_unit_less [of c] by (simp add: code_units_def)

lemma code_units_pair:
  assumes "is_high_surrogate c" and "is_low_surrogate d"
  shows "code_units (0x10000 + (unat c - 0xD800) * 0x400 + (unat d - 0xDC00)) = [c, d]"
proof -
  let ?h = "unat c - 0xD800" and ?l = "unat d - 0xDC00"
  have l: "?l < 0x400" and h: "0xD800 + ?h = unat c" and l': "0xDC00 + ?l = unat d"
    using assms by (simp_all add: surrogate_unat) linarith
  have "(?h * 0x400 + ?l) div 0x400 = ?h" "(?h * 0x400 + ?l) mod 0x400 = ?l"
    using l by simp_all
  then have "code_units (0x10000 + ?h * 0x400 + ?l) =
      [of_nat (0xD800 + ?h), of_nat (0xDC00 + ?l)]"
    by (simp add: code_units_def)
  then show ?thesis
    by (simp only: h l' of_nat_unat ucast_id)
qed

lemma code_units_scalar_values:
  "well_formed s \<Longrightarrow> concat (map code_units (scalar_values s)) = s"
proof (induction s rule: scalar_values.induct)
  case 1
  then show ?case by simp
next
  case (2 c)
  then show ?case
    by (simp add: code_units_bmp)
next
  case (3 c d r)
  then show ?case
    by (auto simp add: code_units_bmp code_units_pair simp del: scalar_values.simps(3)
        simp add: scalar_values.simps(3) [of c d r] split: if_splits)
qed

lemma byte_eq_iff:
  assumes "n < 256" and "m < 256"
  shows "(of_nat n :: 8 word) = of_nat m \<longleftrightarrow> n = m"
  using assms by (metis unat_byte)

lemma no_byte_order_mark:
  assumes "valid_scalar cp" and "cp \<noteq> 0xFEFF"
  shows "take 3 (utf8_encode_scalar cp @ bs) \<noteq> [0xEF, 0xBB, 0xBF]"
proof -
  have bom: "[0xEF, 0xBB, 0xBF] = [of_nat 239, of_nat 187, of_nat 191 :: 8 word]"
    by simp
  consider "cp < 0x80" | "0x80 \<le> cp" "cp < 0x800" | "0x800 \<le> cp" "cp < 0x10000"
    | "0x10000 \<le> cp"
    by linarith
  then show ?thesis
  proof cases
    case 1
    then have "(of_nat cp :: 8 word) \<noteq> of_nat 239"
      by (subst byte_eq_iff) simp_all
    then show ?thesis
      unfolding bom encode_cases(1) [OF 1] by (cases bs; cases "tl bs") auto
  next
    case 2
    have "(of_nat (0xC0 + cp div 64) :: 8 word) \<noteq> of_nat 239"
      using range2 [OF 2] by (subst byte_eq_iff) simp_all
    then show ?thesis
      unfolding bom encode_cases(2) [OF 2] by (cases bs) auto
  next
    case 3
    have v: "\<not> (0xD800 \<le> cp \<and> cp \<le> 0xDFFF)"
      using assms(1) by (simp add: valid_scalar_def)
    have "\<not> (cp div 4096 = 15 \<and> cp div 64 mod 64 = 59 \<and> cp mod 64 = 63)"
      using rebuild3 [of cp] assms(2) by auto
    moreover have "(of_nat (0xE0 + cp div 4096) :: 8 word) = of_nat 239 \<longleftrightarrow> cp div 4096 = 15"
      using range3(1) [OF 3 v] by (subst byte_eq_iff) auto
    moreover have "(of_nat (0x80 + cp div 64 mod 64) :: 8 word) = of_nat 187 \<longleftrightarrow> cp div 64 mod 64 = 59"
      by (subst byte_eq_iff) auto
    moreover have "(of_nat (0x80 + cp mod 64) :: 8 word) = of_nat 191 \<longleftrightarrow> cp mod 64 = 63"
      by (subst byte_eq_iff) auto
    ultimately show ?thesis
      unfolding bom encode_cases(3) [OF 3] by (simp only: append_Cons append_Nil take_Suc_Cons
          numeral_3_eq_3 take_0 list.inject) blast
  next
    case 4
    have lt: "cp < 0x110000"
      using assms(1) by (simp add: valid_scalar_def)
    have "(of_nat (0xF0 + cp div 262144) :: 8 word) \<noteq> of_nat 239"
      using range4(1) [OF 4 lt] by (subst byte_eq_iff) simp_all
    then show ?thesis
      unfolding bom encode_cases(4) [OF 4] by auto
  qed
qed

lemma first_scalar_value:
  "\<exists>cp rest. scalar_values (c # r) = cp # rest \<and> (cp = 0xFEFF \<longrightarrow> c = 0xFEFF)"
proof -
  have bmp: "unat c = 0xFEFF \<Longrightarrow> c = 0xFEFF"
    by (simp add: word_unat_eq_iff)
  have pair: "0x10000 + (unat c - 0xD800) * 0x400 + (unat d - 0xDC00) \<noteq> 0xFEFF" for d :: "16 word"
    by simp
  show ?thesis
    using bmp pair by (cases r) auto
qed

lemmas text_eval = TextEncoder_encode_def utf8_encode_scalar_def is_high_surrogate_def
  is_low_surrogate_def str_def

lemma drop_bom_encoded:
  assumes "s = [] \<or> hd s \<noteq> 0xFEFF"
  shows "drop_bom (TextEncoder_encode s) = TextEncoder_encode s"
proof (cases s)
  case Nil
  then show ?thesis
    by (simp add: TextEncoder_encode_def drop_bom_def)
next
  case (Cons c r)
  then have "c \<noteq> 0xFEFF"
    using assms by simp
  then obtain cp rest where sv: "scalar_values s = cp # rest" and "cp \<noteq> 0xFEFF"
    using first_scalar_value [of c r] Cons by auto
  moreover have "valid_scalar cp"
    using scalar_values_valid [of s] sv by simp
  ultimately have "take 3 (TextEncoder_encode s) \<noteq> [0xEF, 0xBB, 0xBF]"
    using no_byte_order_mark [of cp "concat (map utf8_encode_scalar rest)"]
    by (simp add: TextEncoder_encode_def del: take_append)
  then show ?thesis
    by (simp add: drop_bom_def)
qed

text \<open>
  Encoding a well-formed string that does not start with U+FEFF and decoding the bytes
  gives the string back.
\<close>

lemma text_round_trip:
  assumes "well_formed s" and "s = [] \<or> hd s \<noteq> 0xFEFF"
  shows "TextDecoder_decode (TextEncoder_encode s) = s"
  using assms
  by (simp add: TextDecoder_decode_def drop_bom_encoded decode_encoded code_units_scalar_values)

section \<open>Verification of the encryption round trip\<close>

text \<open>
  Whatever the provider, when its decryption undoes its encryption of the encoded
  plaintext, \<open>decrypt\<close> returns the plaintext as \<open>TextDecoder\<close> reads the bytes that
  \<open>TextEncoder\<close> wrote.
\<close>

lemma decrypt_of_encrypt:
  assumes "length rnd = IV_LENGTH"
    and "int (length (TextEncoder_encode p)) \<le> maxBytes_or_default opts"
    and "subtle_encrypt sc rnd key (TextEncoder_encode p) = Inr c"
    and "subtle_decrypt sc rnd key c = Inr (TextEncoder_encode p)"
  shows "encrypt sc rnd p key opts =
      Inr \<lparr>version = 1, ciphertext = base64url_of c, iv = base64url_of rnd\<rparr>"
    and "decrypt sc (base64url_of c) (base64url_of rnd) key =
      Inr (TextDecoder_decode (TextEncoder_encode p))"
  using assms
  by (simp_all add: encrypt_within_limit decrypt_def base64url_round_trip)

text \<open>
  The round trip holds for the plaintexts that the text codec gives back: for every
  well-formed plaintext \<open>p\<close> (no unpaired surrogate) that does not start with U+FEFF
  and whose UTF-8 encoding is within the size limit, every key and every twelve random
  bytes, when the provider encrypts the encoded plaintext and its decryption under the
  same key and initialisation vector gives those bytes back, \<open>encrypt\<close> succeeds and
  decrypting its ciphertext and iv with the same key returns exactly \<open>p\<close>.
\<close>

lemma encrypt_decrypt_round_trip:
  assumes "well_formed p" and "p = [] \<or> hd p \<noteq> 0xFEFF"
    and "int (length (TextEncoder_encode p)) \<le> maxBytes_or_default opts"
    and "length rnd = IV_LENGTH"
    and "subtle_encrypt sc rnd key (TextEncoder_encode p) = Inr c"
    and "subtle_decrypt sc rnd key c = Inr (TextEncoder_encode p)"
  shows "\<exists>ed. encrypt sc rnd p key opts = Inr ed \<and>
           decrypt sc (ciphertext ed) (iv ed) key = Inr p"
  using decrypt_of_encrypt [OF assms(4,3,5,6)] text_round_trip [OF assms(1,2)]
  by simp

lemma example_round_trip:
  "well_formed (str ''my secret'')" "hd (str ''my secret'') \<noteq> 0xFEFF"
  "TextEncoder_encode (str ''my secret'') = [109, 121, 32, 115, 101, 99, 114, 101, 116]"
  by (simp_all add: text_eval)

lemma example_cipher:
  "length example_iv = IV_LENGTH"
  "subtle_encrypt stand_in_provider example_iv example_key [109, 121, 32, 115, 101, 99, 114, 101, 116] =
     Inr [123, 135, 46, 129, 115, 113, 128, 115, 130, 14, 14, 14, 14, 14, 14, 14, 14, 14, 14, 14,
          14, 14, 14, 14, 14]"
  "subtle_decrypt stand_in_provider example_iv example_key
     [123, 135, 46, 129, 115, 113, 128, 115, 130, 14, 14, 14, 14, 14, 14, 14, 14, 14, 14, 14,
      14, 14, 14, 14, 14] = Inr [109, 121, 32, 115, 101, 99, 114, 101, 116]"
  unfolding stand_in_provider_def subtle_crypto.simps by code_simp+

lemma encrypt_decrypt_round_trip_example:
  "\<exists>ed. encrypt stand_in_provider example_iv (str ''my secret'') example_key None = Inr ed \<and>
     decrypt stand_in_provider (ciphertext ed) (iv ed) example_key = Inr (str ''my secret'')"
  using encrypt_decrypt_round_trip [where p = "str ''my secret''" and opts = None
      and rnd = example_iv and sc = stand_in_provider and key = example_key
      and c = "[123, 135, 46, 129, 115, 113, 128, 115, 130, 14, 14, 14, 14, 14, 14, 14, 14, 14,
                14, 14, 14, 14, 14, 14, 14]"]
    example_round_trip example_cipher
  by (simp add: maxBytes_or_default_def MAX_PLAINTEXT_BYTES_def)

text \<open>
  An unpaired surrogate does not come back either: the encoder writes U+FFFD for it.
\<close>

lemma lone_surrogate_replaced:
  "TextDecoder_decode (TextEncoder_encode [0xD800, 0x78]) = [0xFFFD, 0x78]"
  by (simp add: text_eval TextDecoder_decode_def drop_bom_def utf8_decode.simps code_units_def)

text \<open>
  C1. Decrypting what \<open>encrypt\<close> produced should return the plaintext exactly. The
  module decodes with a \<open>TextDecoder\<close> that drops a leading byte order mark, so a
  plaintext that starts with U+FEFF comes back without it: here the plaintext is U+FEFF
  followed by \<open>hi\<close>, and \<open>decrypt\<close> returns \<open>hi\<close>.
\<close>

theorem round_trip_drops_byte_order_mark:
  "encrypt stand_in_provider example_iv [0xFEFF, 0x68, 0x69] example_key None =
     Inr \<lparr>version = 1, ciphertext = str ''_cnNdncODg4ODg4ODg4ODg4ODg4O'',
          iv = str ''ZWZnaGlqa2xtbm9w''\<rparr> \<and>
   decrypt stand_in_provider (str ''_cnNdncODg4ODg4ODg4ODg4ODg4O'') (str ''ZWZnaGlqa2xtbm9w'')
     example_key = Inr [0x68, 0x69]"
proof -
  let ?c = "[0xFD, 0xC9, 0xCD, 0x76, 0x77] @ replicate 16 (0x0E :: 8 word)"
  have data: "TextEncoder_encode [0xFEFF, 0x68, 0x69] = [0xEF, 0xBB, 0xBF, 0x68, 0x69]"
    by (simp add: text_eval)
  have decoded: "TextDecoder_decode [0xEF, 0xBB, 0xBF, 0x68, 0x69] = [0x68, 0x69]"
    by (simp add: TextDecoder_decode_def drop_bom_def utf8_decode.simps code_units_def)
  have enc: "subtle_encrypt stand_in_provider example_iv example_key [0xEF, 0xBB, 0xBF, 0x68, 0x69] =
      Inr ?c"
    and dec: "subtle_decrypt stand_in_provider example_iv example_key ?c =
      Inr [0xEF, 0xBB, 0xBF, 0x68, 0x69]"
    and len: "length example_iv = IV_LENGTH"
    and b64: "base64url_of ?c = str ''_cnNdncODg4ODg4ODg4ODg4ODg4O''"
      "base64url_of example_iv = str ''ZWZnaGlqa2xtbm9w''"
    unfolding stand_in_provider_def subtle_crypto.simps by code_simp+
  have size: "int (length (TextEncoder_encode [0xFEFF, 0x68, 0x69])) \<le> maxBytes_or_default None"
    by (simp add: data maxBytes_or_default_def MAX_PLAINTEXT_BYTES_def)
  show ?thesis
    using decrypt_of_encrypt [OF len size, of stand_in_provider example_key ?c]
    by (simp only: data enc dec decoded b64)
qed


end
